theory Spec2Isabelle
  imports Complex_Main
begin

section \<open>Strings of the runtime\<close>

text \<open>
  A JavaScript string is a sequence of UTF-16 code units. It is modelled as a
  \<^typ>\<open>string\<close>, a list of the code units below 256 (ASCII and the Latin-1 supplement);
  a literal such as \<open>''abc''\<close> holds ASCII, and \<open>CHR 0xC9\<close> is the code unit \<open>0xC9\<close>.
  The functions of this section are the library functions the program calls on strings
  (\<^verbatim>\<open>toLowerCase\<close>, \<^verbatim>\<open>trim\<close>, \<^verbatim>\<open>startsWith\<close>, \<^verbatim>\<open>includes\<close>), written as list
  functions.

  \<^verbatim>\<open>toLowerCase\<close> maps the letters \<open>A\<close> to \<open>Z\<close> (65 to 90) and the capital letters of
  the Latin-1 supplement (192 to 222 but the multiplication sign 215) to the code unit
  32 above, and keeps every other code unit below 256.
\<close>

definition isUpper :: "char \<Rightarrow> bool" where
  "isUpper c =
     (let n = (of_char c :: nat) in
      (65 \<le> n \<and> n \<le> 90) \<or> (192 \<le> n \<and> n \<le> 222 \<and> n \<noteq> 215))"

definition lowerLatin1 :: string where
  "lowerLatin1 =
     [CHR 0xE0, CHR 0xE1, CHR 0xE2, CHR 0xE3, CHR 0xE4, CHR 0xE5, CHR 0xE6, CHR 0xE7,
      CHR 0xE8, CHR 0xE9, CHR 0xEA, CHR 0xEB, CHR 0xEC, CHR 0xED, CHR 0xEE, CHR 0xEF,
      CHR 0xF0, CHR 0xF1, CHR 0xF2, CHR 0xF3, CHR 0xF4, CHR 0xF5, CHR 0xF6, CHR 0xF7,
      CHR 0xF8, CHR 0xF9, CHR 0xFA, CHR 0xFB, CHR 0xFC, CHR 0xFD, CHR 0xFE]"

definition lower_char :: "char \<Rightarrow> char" where
  "lower_char c =
     (let n = (of_char c :: nat) in
      if 65 \<le> n \<and> n \<le> 90 then ''abcdefghijklmnopqrstuvwxyz'' ! (n - 65)
      else if 192 \<le> n \<and> n \<le> 222 \<and> n \<noteq> 215 then lowerLatin1 ! (n - 192)
      else c)"

definition toLowerCase :: "string \<Rightarrow> string" where
  "toLowerCase s = map lower_char s"

fun startsWith :: "string \<Rightarrow> string \<Rightarrow> bool" where
  "startsWith s [] = True"
| "startsWith [] (p # ps) = False"
| "startsWith (c # cs) (p # ps) = (c = p \<and> startsWith cs ps)"

fun includes_str :: "string \<Rightarrow> string \<Rightarrow> bool" where
  "includes_str [] p = (p = [])"
| "includes_str (c # cs) p = (startsWith (c # cs) p \<or> includes_str cs p)"

text \<open>
  White space as \<^verbatim>\<open>trim\<close> and the pattern \<^verbatim>\<open>\s\<close> see it below 256: tab, line feed,
  vertical tab, form feed, carriage return, space and the no-break space.
\<close>

definition isSpace :: "char \<Rightarrow> bool" where
  "isSpace c = ((of_char c :: nat) \<in> {9, 10, 11, 12, 13, 32, 160})"

definition isDigit :: "char \<Rightarrow> bool" where
  "isDigit c = (48 \<le> (of_char c :: nat) \<and> (of_char c :: nat) \<le> 57)"

definition trim :: "string \<Rightarrow> string" where
  "trim s = rev (dropWhile isSpace (rev (dropWhile isSpace s)))"

text \<open>A string is truthy when it is not empty; \<^verbatim>\<open>a || b\<close> on a nullable string.\<close>

definition orElse :: "string option \<Rightarrow> string \<Rightarrow> string" where
  "orElse a b = (case a of None \<Rightarrow> b | Some s \<Rightarrow> if s = [] then b else s)"

definition truthy :: "string option \<Rightarrow> bool" where
  "truthy a = (case a of None \<Rightarrow> False | Some s \<Rightarrow> s \<noteq> [])"

section \<open>Data model\<close>

record ParsedTransaction =
  date :: string
  rawDate :: string
  description :: string
  amount :: real

record Transaction = ParsedTransaction +
  id_tx :: string
  categoryId :: "string option"
  categorizedByRule :: bool
  categorizedByAI :: bool

record Category =
  id_cat :: string
  name :: string

datatype RuleConditionType = contains | startsWith_cond | equals

record Rule =
  id_rule :: string
  conditionType :: RuleConditionType
  conditionValue :: string
  categoryId_rule :: string

section \<open>Rule engine\<close>

text \<open>
  The inner loop of \<^verbatim>\<open>categorizeTransactions\<close> and of
  \<^verbatim>\<open>recategorizeUncategorizedTransactions\<close> (the two copies are the same): it walks the
  rules in the order of the array and leaves at the first match with \<^verbatim>\<open>break\<close>. The
  result is the pair of the local variables \<^verbatim>\<open>categoryId\<close> and
  \<^verbatim>\<open>categorizedByRule\<close>.
\<close>

definition ruleMatch :: "string \<Rightarrow> Rule \<Rightarrow> bool" where
  "ruleMatch descriptionLower rule =
     (let valueLower = toLowerCase (conditionValue rule) in
      case conditionType rule of
        contains \<Rightarrow> includes_str descriptionLower valueLower
      | startsWith_cond \<Rightarrow> startsWith descriptionLower valueLower
      | equals \<Rightarrow> descriptionLower = valueLower)"

fun applyRules :: "string \<Rightarrow> Rule list \<Rightarrow> string option \<times> bool" where
  "applyRules descriptionLower [] = (None, False)"
| "applyRules descriptionLower (rule # rules) =
     (if ruleMatch descriptionLower rule then (Some (categoryId_rule rule), True)
      else applyRules descriptionLower rules)"

section \<open>AI batch categorizer\<close>

text \<open>
  \<^verbatim>\<open>getCategoryBatchFromAIService\<close> (services/aiClient.ts) posts one batch to the local
  service and turns the answer into a map from index to category id. The network call is
  a parameter of the model: \<open>fetch batch categories\<close> is what comes back for the request
  whose body carries this batch and this catalog (the model name, temperature and
  thinking flag of the body are fixed per call site and do not enter the result). What
  comes back is one of: the call is rejected (a network error; \<^verbatim>\<open>await fetch\<close> throws);
  a non-2xx status; a 2xx status with a body that is not JSON (\<^verbatim>\<open>resp.json()\<close>
  throws); a 2xx status with a decoded body, any JSON value. A JSON number is a finite
  double, taken as the real number it denotes. Debug logs do not enter the result and
  are left out.

  The function returns a map or throws: \<open>Inl\<close> carries what is thrown.
\<close>

datatype json =
  JUndefined | JNull | JBool bool | JNumber real | JString string
  | JArray "json list" | JObject "(string \<times> json) list"

datatype HttpResponse = Rejected | NotOk | NotJson | Ok json

datatype AIError = FetchRejected | JsonSyntaxError | TypeError

type_synonym BatchItem = "string \<times> nat"

type_synonym Fetch = "BatchItem list \<Rightarrow> Category list \<Rightarrow> HttpResponse"

text \<open>
  Reading the property \<open>k\<close> of a value that is neither \<^verbatim>\<open>null\<close> nor \<^verbatim>\<open>undefined\<close>
  (on these two the read throws, which the callers below test first): the last binding
  of \<open>k\<close> in an object, \<^verbatim>\<open>undefined\<close> in every other case.
\<close>

definition getField :: "string \<Rightarrow> json \<Rightarrow> json" where
  "getField k v =
     (case v of
        JObject props \<Rightarrow> (case map_of (rev props) k of Some x \<Rightarrow> x | None \<Rightarrow> JUndefined)
      | _ \<Rightarrow> JUndefined)"

definition isNullish :: "json \<Rightarrow> bool" where
  "isNullish v = (case v of JNull \<Rightarrow> True | JUndefined \<Rightarrow> True | _ \<Rightarrow> False)"

text \<open>
  The values that \<^verbatim>\<open>for (const item of data.results || [])\<close> runs over: none for a
  falsy \<^verbatim>\<open>results\<close>, the elements of an array, the characters of a string; any other
  value is not iterable, and reading \<^verbatim>\<open>results\<close> of a null body throws.
\<close>

definition resultsOf :: "json \<Rightarrow> AIError + json list" where
  "resultsOf data =
     (if isNullish data then Inl TypeError
      else (case getField ''results'' data of
              JUndefined \<Rightarrow> Inr []
            | JNull \<Rightarrow> Inr []
            | JBool b \<Rightarrow> if b then Inl TypeError else Inr []
            | JNumber x \<Rightarrow> if x = 0 then Inr [] else Inl TypeError
            | JString s \<Rightarrow> Inr (map (\<lambda>c. JString [c]) s)
            | JArray items \<Rightarrow> Inr items
            | JObject props \<Rightarrow> Inl TypeError))"

fun resultLoop :: "json list \<Rightarrow> (real \<rightharpoonup> string) \<Rightarrow> AIError + (real \<rightharpoonup> string)" where
  "resultLoop [] resultMap = Inr resultMap"
| "resultLoop (item # items) resultMap =
     (if isNullish item then Inl TypeError
      else resultLoop items
             (case (getField ''index'' item, getField ''categoryId'' item) of
                (JNumber i, JString c) \<Rightarrow> resultMap(i \<mapsto> c)
              | _ \<Rightarrow> resultMap))"

definition getCategoryBatchFromAIService ::
  "Fetch \<Rightarrow> BatchItem list \<Rightarrow> Category list \<Rightarrow> AIError + (real \<rightharpoonup> string)" where
  "getCategoryBatchFromAIService fetch batch categories =
     (case fetch batch categories of
        Rejected \<Rightarrow> Inl FetchRejected
      | NotOk \<Rightarrow> Inr Map.empty
      | NotJson \<Rightarrow> Inl JsonSyntaxError
      | Ok data \<Rightarrow>
          (case resultsOf data of
             Inl e \<Rightarrow> Inl e
           | Inr items \<Rightarrow> resultLoop items Map.empty))"

text \<open>
  The service handler's \<^verbatim>\<open>validateAndFilterResults\<close> (the handler of
  \<^verbatim>\<open>/api/ai/categorize\<close>) filters the model's decoded answer before it is sent back:
  it keeps the entries that are objects with a number \<^verbatim>\<open>index\<close> and a string
  \<^verbatim>\<open>categoryId\<close> that is an id of the catalog of the request, and sends them as the
  \<^verbatim>\<open>results\<close> of its body (the other fields of the body are only logged by the
  client).
\<close>

definition isObject :: "json \<Rightarrow> bool" where
  "isObject v = (case v of JObject _ \<Rightarrow> True | JArray _ \<Rightarrow> True | _ \<Rightarrow> False)"

fun filterLoop :: "string set \<Rightarrow> json list \<Rightarrow> json list" where
  "filterLoop allowed [] = []"
| "filterLoop allowed (item # items) =
     (case (isObject item, getField ''index'' item, getField ''categoryId'' item) of
        (True, JNumber i, JString c) \<Rightarrow>
          (if c \<in> allowed
           then JObject [(''index'', JNumber i), (''categoryId'', JString c)]
                  # filterLoop allowed items
           else filterLoop allowed items)
      | _ \<Rightarrow> filterLoop allowed items)"

definition validateAndFilterResults :: "json \<Rightarrow> Category list \<Rightarrow> json list" where
  "validateAndFilterResults raw categories =
     (case raw of
        JArray items \<Rightarrow> filterLoop (set (map id_cat categories)) items
      | _ \<Rightarrow> [])"

definition handlerBody :: "json \<Rightarrow> Category list \<Rightarrow> json" where
  "handlerBody raw categories = JObject [(''results'', JArray (validateAndFilterResults raw categories))]"

section \<open>Pipeline orchestrator\<close>

text \<open>
  Numbers in template strings: the decimal digits of an integer (ids are built from the
  clock reading \<^verbatim>\<open>Date.now()\<close> and the position of the row).
\<close>

definition digitChar :: "nat \<Rightarrow> char" where
  "digitChar d = ''0123456789'' ! d"

fun showNat :: "nat \<Rightarrow> string" where
  "showNat n =
     (if n < 10 then [digitChar n]
      else showNat (n div 10) @ [digitChar (n mod 10)])"

declare showNat.simps [simp del]

definition showInt :: "int \<Rightarrow> string" where
  "showInt i = (if i < 0 then CHR ''-'' # showNat (nat (- i)) else showNat (nat i))"

text \<open>
  \<^verbatim>\<open>getBatchSize\<close> reads the batch size from local storage. Its argument is the result
  of \<^verbatim>\<open>parseInt\<close> on the stored text when that is a finite number, and \<open>None\<close> when
  there is no window, the read throws, or the text has no finite number in it.
\<close>

definition DEFAULT_AI_BATCH_SIZE :: nat where
  "DEFAULT_AI_BATCH_SIZE = 50"

definition getBatchSize :: "int option \<Rightarrow> nat" where
  "getBatchSize parsed =
     (case parsed of
        None \<Rightarrow> DEFAULT_AI_BATCH_SIZE
      | Some p \<Rightarrow> if p > 0 then nat p else DEFAULT_AI_BATCH_SIZE)"

definition categoryNameToIdMap :: "Category list \<Rightarrow> (string \<rightharpoonup> string)" where
  "categoryNameToIdMap categories =
     fold (\<lambda>c m. m(toLowerCase (name c) \<mapsto> id_cat c)) categories Map.empty"

text \<open>
  What both paths do with one transaction of an AI batch: read the answer for its index
  (\<^verbatim>\<open>aiResults.get(index) || null\<close>), set \<^verbatim>\<open>categorizedByAI\<close> from it, and fall
  back on the income category for a positive amount. The result is the pair of the local
  variables \<^verbatim>\<open>categoryId\<close> and \<^verbatim>\<open>categorizedByAI\<close> before the record is written.
\<close>

definition aiOrIncome ::
  "(real \<rightharpoonup> string) \<Rightarrow> (string \<rightharpoonup> string) \<Rightarrow> nat \<Rightarrow> real \<Rightarrow> string option \<times> bool" where
  "aiOrIncome aiResults nameMap index amt =
     (let cid = (if truthy (aiResults (real index)) then aiResults (real index) else None);
          byAI = truthy cid;
          incomeCategoryId = nameMap ''income''
      in (if \<not> truthy cid \<and> amt > 0 \<and> truthy incomeCategoryId
          then incomeCategoryId else cid,
          byAI))"

subsection \<open>Import path: \<^verbatim>\<open>categorizeTransactions\<close>\<close>

text \<open>
  \<open>now index\<close> is the clock reading taken when the id of the row at \<open>index\<close> is built.
  \<^verbatim>\<open>finalTransactions\<close> is an array of \<open>length parsedTransactions\<close> slots, empty at
  first (\<open>None\<close>) and written by index. Progress callbacks and debug logs do not enter
  the result and are left out.
\<close>

definition ruleTransaction :: "(nat \<Rightarrow> int) \<Rightarrow> nat \<Rightarrow> ParsedTransaction \<Rightarrow> string option \<Rightarrow> Transaction" where
  "ruleTransaction now index pt cid =
     \<lparr>date = date pt, rawDate = rawDate pt, description = description pt, amount = amount pt,
      id_tx = ''txn-'' @ showInt (now index) @ ''-'' @ showNat index,
      categoryId = Some (orElse cid ''cat-uncategorized''),
      categorizedByRule = True, categorizedByAI = False\<rparr>"

fun rulePass :: "Rule list \<Rightarrow> (nat \<Rightarrow> int) \<Rightarrow> ParsedTransaction list \<Rightarrow> nat \<Rightarrow>
    Transaction option list \<Rightarrow> (ParsedTransaction \<times> nat) list \<Rightarrow>
    Transaction option list \<times> (ParsedTransaction \<times> nat) list" where
  "rulePass rules now [] index finalTransactions transactionsForAI =
     (finalTransactions, transactionsForAI)"
| "rulePass rules now (pt # pts) index finalTransactions transactionsForAI =
     (case applyRules (toLowerCase (description pt)) rules of
        (cid, True) \<Rightarrow>
          rulePass rules now pts (index + 1)
            (finalTransactions[index := Some (ruleTransaction now index pt cid)])
            transactionsForAI
      | (cid, False) \<Rightarrow>
          rulePass rules now pts (index + 1) finalTransactions
            (transactionsForAI @ [(pt, index)]))"

definition aiTransaction ::
  "(nat \<Rightarrow> int) \<Rightarrow> (real \<rightharpoonup> string) \<Rightarrow> (string \<rightharpoonup> string) \<Rightarrow> ParsedTransaction \<times> nat \<Rightarrow> Transaction" where
  "aiTransaction now aiResults nameMap t =
     (case aiOrIncome aiResults nameMap (snd t) (amount (fst t)) of
        (cid, byAI) \<Rightarrow>
          \<lparr>date = date (fst t), rawDate = rawDate (fst t), description = description (fst t),
           amount = amount (fst t),
           id_tx = ''txn-'' @ showInt (now (snd t)) @ ''-'' @ showNat (snd t),
           categoryId = Some (orElse cid ''cat-uncategorized''),
           categorizedByRule = False, categorizedByAI = byAI\<rparr>)"

definition batchPass ::
  "(nat \<Rightarrow> int) \<Rightarrow> (real \<rightharpoonup> string) \<Rightarrow> (string \<rightharpoonup> string) \<Rightarrow> (ParsedTransaction \<times> nat) list \<Rightarrow>
    Transaction option list \<Rightarrow> Transaction option list" where
  "batchPass now aiResults nameMap batch finalTransactions =
     fold (\<lambda>t final. final[snd t := Some (aiTransaction now aiResults nameMap t)])
       batch finalTransactions"

definition batchResults ::
  "Fetch \<Rightarrow> Category list \<Rightarrow> (ParsedTransaction \<times> nat) list \<Rightarrow> AIError + (real \<rightharpoonup> string)" where
  "batchResults fetch categories batch =
     getCategoryBatchFromAIService fetch
       (map (\<lambda>t. (description (fst t), snd t)) batch) categories"

text \<open>
  The batch loop \<^verbatim>\<open>for (let i = 0; i < transactionsForAI.length; i += batchSize)\<close>.
  \<open>fetch call\<close> is the network call of the batch number \<open>call\<close>. A call that throws
  ends the loop and the function with what it throws (\<open>Inl\<close>). The loop does not advance
  when \<open>batchSize\<close> is \<open>0\<close>: it is a partial function, and \<open>None\<close> is the run that
  never returns.
\<close>

partial_function (option) batchLoop ::
  "(nat \<Rightarrow> Fetch) \<Rightarrow> (nat \<Rightarrow> int) \<Rightarrow> Category list \<Rightarrow> nat \<Rightarrow> (ParsedTransaction \<times> nat) list \<Rightarrow>
    nat \<Rightarrow> nat \<Rightarrow> Transaction option list \<Rightarrow> (AIError + Transaction option list) option" where
  "batchLoop fetch now categories batchSize transactionsForAI i call finalTransactions =
     (if i < length transactionsForAI
      then (case batchResults (fetch call) categories (take batchSize (drop i transactionsForAI)) of
              Inl e \<Rightarrow> Some (Inl e)
            | Inr aiResults \<Rightarrow>
                batchLoop fetch now categories batchSize transactionsForAI (i + batchSize) (call + 1)
                  (batchPass now aiResults (categoryNameToIdMap categories)
                     (take batchSize (drop i transactionsForAI)) finalTransactions))
      else Some (Inr finalTransactions))"

declare batchLoop.simps [code]

text \<open>
  \<open>storedBatchSize\<close> is what \<^verbatim>\<open>getBatchSize\<close> finds in local storage (see above).
  The result is \<open>None\<close> when the batch loop never returns, \<open>Some (Inl e)\<close> when the
  promise is rejected with \<open>e\<close>, and otherwise the array \<^verbatim>\<open>finalTransactions\<close>, slot by
  slot.
\<close>

definition categorizeTransactions ::
  "(nat \<Rightarrow> Fetch) \<Rightarrow> (nat \<Rightarrow> int) \<Rightarrow> int option \<Rightarrow> ParsedTransaction list \<Rightarrow> Rule list \<Rightarrow>
    Category list \<Rightarrow> (AIError + Transaction option list) option" where
  "categorizeTransactions fetch now storedBatchSize parsedTransactions rules categories =
     (case rulePass rules now parsedTransactions 0
             (replicate (length parsedTransactions) None) [] of
        (finalTransactions, transactionsForAI) \<Rightarrow>
          batchLoop fetch now categories (getBatchSize storedBatchSize) transactionsForAI 0 0
            finalTransactions)"

subsection \<open>Recategorize path: \<^verbatim>\<open>recategorizeUncategorizedTransactions\<close>\<close>

text \<open>
  The same three passes on persisted transactions: the records written are the input
  record with \<^verbatim>\<open>categoryId\<close>, \<^verbatim>\<open>categorizedByRule\<close> and \<^verbatim>\<open>categorizedByAI\<close>
  replaced. A last pass fills every slot still empty with the input transaction.
\<close>

fun rulePassRecat :: "Rule list \<Rightarrow> Transaction list \<Rightarrow> nat \<Rightarrow>
    Transaction option list \<Rightarrow> (Transaction \<times> nat) list \<Rightarrow>
    Transaction option list \<times> (Transaction \<times> nat) list" where
  "rulePassRecat rules [] index updated toSendToAI = (updated, toSendToAI)"
| "rulePassRecat rules (tx # txs) index updated toSendToAI =
     (case applyRules (toLowerCase (description tx)) rules of
        (cid, True) \<Rightarrow>
          rulePassRecat rules txs (index + 1)
            (updated[index := Some (tx\<lparr>categoryId := Some (orElse cid ''cat-uncategorized''),
                                       categorizedByRule := True, categorizedByAI := False\<rparr>)])
            toSendToAI
      | (cid, False) \<Rightarrow>
          rulePassRecat rules txs (index + 1) updated (toSendToAI @ [(tx, index)]))"

definition aiUpdate ::
  "(real \<rightharpoonup> string) \<Rightarrow> (string \<rightharpoonup> string) \<Rightarrow> Transaction \<times> nat \<Rightarrow> Transaction" where
  "aiUpdate aiResults nameMap t =
     (case aiOrIncome aiResults nameMap (snd t) (amount (fst t)) of
        (cid, byAI) \<Rightarrow>
          (fst t)\<lparr>categoryId := Some (orElse cid ''cat-uncategorized''),
                  categorizedByRule := False, categorizedByAI := byAI\<rparr>)"

definition batchPassRecat ::
  "(real \<rightharpoonup> string) \<Rightarrow> (string \<rightharpoonup> string) \<Rightarrow> (Transaction \<times> nat) list \<Rightarrow>
    Transaction option list \<Rightarrow> Transaction option list" where
  "batchPassRecat aiResults nameMap batch updated =
     fold (\<lambda>t upd. upd[snd t := Some (aiUpdate aiResults nameMap t)]) batch updated"

definition batchResultsRecat ::
  "Fetch \<Rightarrow> Category list \<Rightarrow> (Transaction \<times> nat) list \<Rightarrow> AIError + (real \<rightharpoonup> string)" where
  "batchResultsRecat fetch categories batch =
     getCategoryBatchFromAIService fetch
       (map (\<lambda>t. (description (fst t), snd t)) batch) categories"

partial_function (option) batchLoopRecat ::
  "(nat \<Rightarrow> Fetch) \<Rightarrow> Category list \<Rightarrow> nat \<Rightarrow> (Transaction \<times> nat) list \<Rightarrow>
    nat \<Rightarrow> nat \<Rightarrow> Transaction option list \<Rightarrow> (AIError + Transaction option list) option" where
  "batchLoopRecat fetch categories batchSize toSendToAI i call updated =
     (if i < length toSendToAI
      then (case batchResultsRecat (fetch call) categories (take batchSize (drop i toSendToAI)) of
              Inl e \<Rightarrow> Some (Inl e)
            | Inr aiResults \<Rightarrow>
                batchLoopRecat fetch categories batchSize toSendToAI (i + batchSize) (call + 1)
                  (batchPassRecat aiResults (categoryNameToIdMap categories)
                     (take batchSize (drop i toSendToAI)) updated))
      else Some (Inr updated))"

declare batchLoopRecat.simps [code]

definition fillUntouched :: "Transaction list \<Rightarrow> Transaction option list \<Rightarrow> Transaction list" where
  "fillUntouched uncategorized updated =
     map (\<lambda>(tx, u). case u of None \<Rightarrow> tx | Some v \<Rightarrow> v) (zip uncategorized updated)"

definition recategorizeUncategorizedTransactions ::
  "(nat \<Rightarrow> Fetch) \<Rightarrow> int option \<Rightarrow> Transaction list \<Rightarrow> Rule list \<Rightarrow> Category list \<Rightarrow>
    (AIError + Transaction list) option" where
  "recategorizeUncategorizedTransactions fetch storedBatchSize uncategorized rules categories =
     (case rulePassRecat rules uncategorized 0 (replicate (length uncategorized) None) [] of
        (updated, toSendToAI) \<Rightarrow>
          map_option (map_sum id (fillUntouched uncategorized))
            (batchLoopRecat fetch categories (getBatchSize storedBatchSize) toSendToAI 0 0
               updated))"

subsection \<open>Applying one rule to the ledger, and manual edits\<close>

text \<open>
  \<^verbatim>\<open>applyRule\<close> (services/database.ts) rewrites every stored transaction that the rule
  matches and whose category differs from the rule's; the result is the list handed to
  \<^verbatim>\<open>batchUpdateTransactions\<close> and the count returned.
\<close>

definition applyRuleMatches :: "Rule \<Rightarrow> string \<Rightarrow> bool" where
  "applyRuleMatches rule descr =
     (let conditionValueLower = toLowerCase (conditionValue rule);
          descrLower = toLowerCase descr
      in case conditionType rule of
           contains \<Rightarrow> includes_str descrLower conditionValueLower
         | startsWith_cond \<Rightarrow> startsWith descrLower conditionValueLower
         | equals \<Rightarrow> descrLower = conditionValueLower)"

fun applyRuleLoop :: "Rule \<Rightarrow> Transaction list \<Rightarrow> Transaction list \<Rightarrow> nat \<Rightarrow> Transaction list \<times> nat" where
  "applyRuleLoop rule [] updatedTransactions count = (updatedTransactions, count)"
| "applyRuleLoop rule (t # ts) updatedTransactions count =
     (if applyRuleMatches rule (description t) \<and> categoryId t \<noteq> Some (categoryId_rule rule)
      then applyRuleLoop rule ts
             (updatedTransactions @
                [t\<lparr>categoryId := Some (categoryId_rule rule),
                   categorizedByRule := True, categorizedByAI := False\<rparr>])
             (count + 1)
      else applyRuleLoop rule ts updatedTransactions count)"

definition applyRule :: "Rule \<Rightarrow> Transaction list \<Rightarrow> Transaction list \<times> nat" where
  "applyRule rule transactions = applyRuleLoop rule transactions [] 0"

text \<open>
  \<^verbatim>\<open>handleCategoryChange\<close> of the upload page maps over the previewed transactions;
  the one of the transactions page looks the transaction up and hands the edited copy
  to \<^verbatim>\<open>updateTransaction\<close> (\<open>None\<close>: no transaction has this id, nothing is updated).
\<close>

definition manualEdit :: "string \<Rightarrow> Transaction \<Rightarrow> Transaction" where
  "manualEdit newCategoryId t =
     t\<lparr>categoryId := Some newCategoryId, categorizedByRule := False, categorizedByAI := False\<rparr>"

definition handleCategoryChange :: "string \<Rightarrow> string \<Rightarrow> Transaction list \<Rightarrow> Transaction list" where
  "handleCategoryChange transactionId newCategoryId prev =
     map (\<lambda>t. if id_tx t = transactionId then manualEdit newCategoryId t else t) prev"

definition handleCategoryChangePage :: "string \<Rightarrow> string \<Rightarrow> Transaction list \<Rightarrow> Transaction option" where
  "handleCategoryChangePage transactionId newCategoryId transactions =
     map_option (manualEdit newCategoryId) (find (\<lambda>t. id_tx t = transactionId) transactions)"

section \<open>Deduplicator\<close>

text \<open>
  The duplicate filter of \<^verbatim>\<open>handleFileSelect\<close> (upload page). The key of a transaction
  is the template string \<^verbatim>\<open>`${date}|${amount}|${normalize(description)}`\<close>;
  \<open>numberToString\<close> is the runtime's rendering of a number in a template string.
\<close>

fun collapseSpaces :: "string \<Rightarrow> string" where
  "collapseSpaces [] = []"
| "collapseSpaces [c] = (if isSpace c then '' '' else [c])"
| "collapseSpaces (c # d # cs) =
     (if isSpace c
      then (if isSpace d then collapseSpaces (d # cs) else CHR '' '' # collapseSpaces (d # cs))
      else c # collapseSpaces (d # cs))"

definition normalize :: "string \<Rightarrow> string" where
  "normalize s = (if s = [] then [] else collapseSpaces (toLowerCase (trim s)))"

definition dedupKey :: "(real \<Rightarrow> string) \<Rightarrow> 'a ParsedTransaction_scheme \<Rightarrow> string" where
  "dedupKey numberToString t =
     date t @ ''|'' @ numberToString (amount t) @ ''|'' @ normalize (description t)"

definition existingSet :: "(real \<Rightarrow> string) \<Rightarrow> Transaction list \<Rightarrow> string set" where
  "existingSet numberToString transactions =
     fold (\<lambda>t s. insert (dedupKey numberToString t) s) transactions {}"

definition uniqueParsed ::
  "(real \<Rightarrow> string) \<Rightarrow> Transaction list \<Rightarrow> ParsedTransaction list \<Rightarrow> ParsedTransaction list" where
  "uniqueParsed numberToString transactions parsed =
     filter (\<lambda>p. dedupKey numberToString p \<notin> existingSet numberToString transactions) parsed"

text \<open>
  The part of \<^verbatim>\<open>handleFileSelect\<close> after the file is parsed: an empty parse and a
  parse made of duplicates only end with an error message and no preview, and so does a
  categorization that throws (the \<^verbatim>\<open>catch\<close> sets the message); otherwise the rows
  that passed the filter are categorized and become the preview that \<^verbatim>\<open>handleAccept\<close>
  adds to the ledger. \<open>None\<close> is the run in which the categorization never returns.
\<close>

datatype UploadError = NoTransactionsFound | AllAlreadyExist nat | CategorizationFailed AIError

definition handleFileSelect ::
  "(real \<Rightarrow> string) \<Rightarrow> (nat \<Rightarrow> Fetch) \<Rightarrow> (nat \<Rightarrow> int) \<Rightarrow> int option \<Rightarrow> Transaction list \<Rightarrow>
    Rule list \<Rightarrow> Category list \<Rightarrow> ParsedTransaction list \<Rightarrow>
    (UploadError + Transaction option list) option" where
  "handleFileSelect numberToString fetch now storedBatchSize transactions rules categories parsed =
     (if length parsed = 0 then Some (Inl NoTransactionsFound)
      else if length (uniqueParsed numberToString transactions parsed) = 0
      then Some (Inl (AllAlreadyExist (length parsed)))
      else map_option (map_sum CategorizationFailed id)
             (categorizeTransactions fetch now storedBatchSize
                (uniqueParsed numberToString transactions parsed) rules categories))"

section \<open>Dates of the runtime\<close>

text \<open>
  A \<^verbatim>\<open>Date\<close> object holds a time value, the milliseconds since the epoch in UTC, or is
  an invalid date (time value \<^verbatim>\<open>NaN\<close>). The functions below are the operations of
  ECMAScript that the parser calls, on exact integers: the day number of a calendar date
  and back (proleptic Gregorian calendar, day \<open>0\<close> is 1970-01-01), \<^verbatim>\<open>MakeDay\<close>,
  \<^verbatim>\<open>TimeClip\<close>, the constructor \<^verbatim>\<open>new Date(year, month, day)\<close>, which reads its
  arguments in local time, \<^verbatim>\<open>getFullYear\<close> and \<^verbatim>\<open>toISOString\<close>.

  What depends on the runtime is a parameter: \<^verbatim>\<open>Date.parse\<close> (\<open>None\<close> is \<^verbatim>\<open>NaN\<close>),
  the offset of local time \<open>LocalTZA t isUTC\<close> in milliseconds, whether the locale's date
  format puts the day first (what the \<^verbatim>\<open>Intl.DateTimeFormat\<close> probe of the parser
  finds; a probe that throws counts as month first), \<^verbatim>\<open>parseFloat\<close> (\<open>None\<close> is
  \<^verbatim>\<open>NaN\<close>) and the subtraction of doubles, which rounds. A double is taken as the real
  number it denotes, and the integers that \<^verbatim>\<open>parseInt\<close> reads from digits are exact
  (a double is exact up to \<open>2^53\<close>, and a date with a larger field is invalid in the
  runtime and in the model alike).
\<close>

datatype Date = Date int | InvalidDate

record Runtime =
  Date_parse :: "string \<Rightarrow> int option"
  LocalTZA :: "int \<Rightarrow> bool \<Rightarrow> int"
  localeDayFirst :: bool
  parseFloat :: "string \<Rightarrow> real option"
  minusDouble :: "real \<Rightarrow> real \<Rightarrow> real"

definition msPerDay :: int where
  "msPerDay = 86400000"

definition daysFromCivil :: "int \<Rightarrow> int \<Rightarrow> int \<Rightarrow> int" where
  "daysFromCivil y m d =
     (let y' = (if m \<le> 2 then y - 1 else y);
          era = y' div 400;
          yoe = y' - era * 400;
          doy = (153 * (if m > 2 then m - 3 else m + 9) + 2) div 5 + d - 1;
          doe = yoe * 365 + yoe div 4 - yoe div 100 + doy
      in era * 146097 + doe - 719468)"

definition civilFromDays :: "int \<Rightarrow> int \<times> int \<times> int" where
  "civilFromDays z =
     (let z' = z + 719468;
          era = z' div 146097;
          doe = z' - era * 146097;
          yoe = (doe - doe div 1460 + doe div 36524 - doe div 146096) div 365;
          doy = doe - (365 * yoe + yoe div 4 - yoe div 100);
          mp = (5 * doy + 2) div 153;
          d = doy - (153 * mp + 2) div 5 + 1;
          m = (if mp < 10 then mp + 3 else mp - 9)
      in (if m \<le> 2 then yoe + era * 400 + 1 else yoe + era * 400, m, d))"

definition MakeDay :: "int \<Rightarrow> int \<Rightarrow> int \<Rightarrow> int" where
  "MakeDay year month dt = daysFromCivil (year + month div 12) (month mod 12 + 1) 1 + dt - 1"

definition TimeClip :: "int \<Rightarrow> Date" where
  "TimeClip t = (if \<bar>t\<bar> > 8640000000000000 then InvalidDate else Date t)"

definition newDate :: "Runtime \<Rightarrow> int \<Rightarrow> int \<Rightarrow> int \<Rightarrow> Date" where
  "newDate rt y m d =
     (let yr = (if 0 \<le> y \<and> y \<le> 99 then 1900 + y else y);
          t = MakeDay yr m d * msPerDay
      in TimeClip (t - LocalTZA rt t False))"

definition getFullYear :: "Runtime \<Rightarrow> int \<Rightarrow> int" where
  "getFullYear rt t = fst (civilFromDays ((t + LocalTZA rt t True) div msPerDay))"

text \<open>Zero padding to a width of at most six digits, as \<^verbatim>\<open>toISOString\<close> needs it.\<close>

definition pad :: "nat \<Rightarrow> nat \<Rightarrow> string" where
  "pad width n = drop (length (showNat n)) (take width ''000000'') @ showNat n"

definition yearString :: "int \<Rightarrow> string" where
  "yearString y =
     (if 0 \<le> y \<and> y \<le> 9999 then pad 4 (nat y)
      else (if y < 0 then ''-'' else ''+'') @ pad 6 (nat \<bar>y\<bar>))"

definition dayString :: "int \<times> int \<times> int \<Rightarrow> string" where
  "dayString ymd =
     yearString (fst ymd) @ ''-'' @ pad 2 (nat (fst (snd ymd))) @ ''-'' @ pad 2 (nat (snd (snd ymd)))"

definition timeString :: "int \<Rightarrow> string" where
  "timeString w =
     pad 2 (nat (w div 3600000)) @ '':'' @ pad 2 (nat (w mod 3600000 div 60000)) @ '':''
       @ pad 2 (nat (w mod 60000 div 1000)) @ ''.'' @ pad 3 (nat (w mod 1000))"

definition isoString :: "int \<Rightarrow> string" where
  "isoString t =
     dayString (civilFromDays (t div msPerDay)) @ ''T'' @ timeString (t mod msPerDay) @ ''Z''"

datatype ParseFailure =
  NoDateColumn | NoDescriptionColumn | NoAmountColumns | NoValidTransactions
  | RangeError_InvalidTimeValue

definition toISOString :: "Date \<Rightarrow> ParseFailure + string" where
  "toISOString d = (case d of InvalidDate \<Rightarrow> Inl RangeError_InvalidTimeValue | Date t \<Rightarrow> Inr (isoString t))"

section \<open>Date disambiguator\<close>

text \<open>\<^verbatim>\<open>parseInt(s, 10)\<close> on a string of digits.\<close>

definition digitValue :: "char \<Rightarrow> nat" where
  "digitValue c = of_char c - 48"

definition parseDigits :: "string \<Rightarrow> int" where
  "parseDigits s = int (foldl (\<lambda>acc c. 10 * acc + digitValue c) 0 s)"

text \<open>The test \<^verbatim>\<open>/^\d{4}[-/]/\<close>.\<close>

definition isoLikePrefix :: "string \<Rightarrow> bool" where
  "isoLikePrefix raw =
     (5 \<le> length raw \<and> list_all isDigit (take 4 raw) \<and> raw ! 4 \<in> {CHR ''-'', CHR ''/''})"

text \<open>
  The match \<^verbatim>\<open>/^(\d{1,2})[\/\-](\d{1,2})[\/\-](\d{2,4})$/\<close>: the three groups, when the
  whole string has this shape.
\<close>

definition isSep :: "char \<Rightarrow> bool" where
  "isSep c = (c = CHR ''/'' \<or> c = CHR ''-'')"

definition numericSlashOrDash :: "string \<Rightarrow> (string \<times> string \<times> string) option" where
  "numericSlashOrDash raw =
     (let g1 = takeWhile isDigit raw; r1 = dropWhile isDigit raw in
      if length g1 \<in> {1, 2} \<and> r1 \<noteq> [] \<and> isSep (hd r1) then
        (let g2 = takeWhile isDigit (tl r1); r2 = dropWhile isDigit (tl r1) in
         if length g2 \<in> {1, 2} \<and> r2 \<noteq> [] \<and> isSep (hd r2) then
           (let g3 = tl r2 in
            if length g3 \<in> {2, 3, 4} \<and> list_all isDigit g3 then Some (g1, g2, g3) else None)
         else None)
      else None)"

text \<open>The match \<^verbatim>\<open>/(\d+)/g\<close>: the maximal runs of digits, in order.\<close>

fun digitRuns :: "string \<Rightarrow> string \<Rightarrow> string list" where
  "digitRuns run [] = (if run = [] then [] else [run])"
| "digitRuns run (c # cs) =
     (if isDigit c then digitRuns (run @ [c]) cs
      else if run = [] then digitRuns [] cs
      else run # digitRuns [] cs)"

datatype DateFormatHint = auto | DMY | MDY

text \<open>
  \<^verbatim>\<open>parseDate\<close>, step by step as the source has it; each step gives \<open>Some\<close> date when
  it returns and \<open>None\<close> when the source goes on to the next step.
\<close>

definition isoStep :: "Runtime \<Rightarrow> string \<Rightarrow> Date option" where
  "isoStep rt raw =
     (if isoLikePrefix raw then
        (case Date_parse rt raw of Some timestamp \<Rightarrow> Some (TimeClip timestamp) | None \<Rightarrow> None)
      else None)"

text \<open>The two-digit years: \<^verbatim>\<open>if (p3 < 100) p3 += 2000\<close>.\<close>

definition promoteYear :: "int \<Rightarrow> int" where
  "promoteYear y = (if y < 100 then y + 2000 else y)"

definition hintDate :: "Runtime \<Rightarrow> DateFormatHint \<Rightarrow> int \<Rightarrow> int \<Rightarrow> int \<Rightarrow> Date option" where
  "hintDate rt dateFormatHint p1 p2 p3 =
     (if dateFormatHint = DMY then Some (newDate rt p3 (p2 - 1) p1)
      else if dateFormatHint = MDY then Some (newDate rt p3 (p1 - 1) p2)
      else None)"

definition hintStep :: "Runtime \<Rightarrow> string \<Rightarrow> DateFormatHint \<Rightarrow> Date option" where
  "hintStep rt raw dateFormatHint =
     (case numericSlashOrDash raw of
        None \<Rightarrow> None
      | Some groups \<Rightarrow>
          hintDate rt dateFormatHint (parseDigits (fst groups)) (parseDigits (fst (snd groups)))
            (promoteYear (parseDigits (snd (snd groups)))))"

definition standardStep :: "Runtime \<Rightarrow> string \<Rightarrow> Date option" where
  "standardStep rt raw =
     (case Date_parse rt raw of
        None \<Rightarrow> None
      | Some timestamp \<Rightarrow>
          (case TimeClip timestamp of
             InvalidDate \<Rightarrow> None
           | Date t \<Rightarrow>
               (if getFullYear rt t > 1900 \<and> getFullYear rt t < 2100 then Some (Date t)
                else None)))"

definition localeDate :: "Runtime \<Rightarrow> int \<Rightarrow> int \<Rightarrow> int \<Rightarrow> Date option" where
  "localeDate rt p1 p2 p3 =
     (if p3 > 1000 then
        (if p1 > 12 then Some (newDate rt p3 (p2 - 1) p1)
         else if localeDayFirst rt then Some (newDate rt p3 (p2 - 1) p1)
         else Some (newDate rt p3 (p1 - 1) p2))
      else if p1 > 1000 then Some (newDate rt p1 (p2 - 1) p3)
      else None)"

definition localeStep :: "Runtime \<Rightarrow> string \<Rightarrow> Date option" where
  "localeStep rt raw =
     (case map parseDigits (digitRuns [] raw) of
        [p1, p2, p3] \<Rightarrow> localeDate rt p1 p2 p3
      | _ \<Rightarrow> None)"

definition firstSome :: "'a option \<Rightarrow> 'a option \<Rightarrow> 'a option" where
  "firstSome a b = (case a of Some x \<Rightarrow> Some x | None \<Rightarrow> b)"

definition parseDate :: "Runtime \<Rightarrow> string \<Rightarrow> DateFormatHint \<Rightarrow> Date option" where
  "parseDate rt dateStr dateFormatHint =
     (if dateStr = [] then None
      else (let raw = trim dateStr in
            firstSome (isoStep rt raw)
              (firstSome (hintStep rt raw dateFormatHint)
                 (firstSome (standardStep rt raw) (localeStep rt raw)))))"

section \<open>Statement parser: CSV\<close>

text \<open>
  The splits of \<^verbatim>\<open>parseCSV\<close>: at line ends (\<^verbatim>\<open>/\r?\n/\<close>), at every comma (header),
  and at the commas that are followed by an even number of double quotes up to the end
  of the line (rows; the lookahead \<^verbatim>\<open>(?=(?:(?:[^"]*"){2})*[^"]*$)\<close>).
\<close>

fun splitLines :: "string \<Rightarrow> string list" where
  "splitLines [] = [[]]"
| "splitLines (c # cs) =
     (if c = CHR 0x0A then [] # splitLines cs
      else if c = CHR 0x0D \<and> cs \<noteq> [] \<and> hd cs = CHR 0x0A then [] # splitLines (tl cs)
      else (case splitLines cs of [] \<Rightarrow> [[c]] | l # ls \<Rightarrow> (c # l) # ls))"

fun splitComma :: "string \<Rightarrow> string list" where
  "splitComma [] = [[]]"
| "splitComma (c # cs) =
     (if c = CHR '','' then [] # splitComma cs
      else (case splitComma cs of [] \<Rightarrow> [[c]] | l # ls \<Rightarrow> (c # l) # ls))"

fun splitQuoted :: "string \<Rightarrow> string list" where
  "splitQuoted [] = [[]]"
| "splitQuoted (c # cs) =
     (if c = CHR '','' \<and> even (length (filter (\<lambda>x. x = CHR 0x22) cs)) then [] # splitQuoted cs
      else (case splitQuoted cs of [] \<Rightarrow> [[c]] | l # ls \<Rightarrow> (c # l) # ls))"

definition removeQuotes :: "string \<Rightarrow> string" where
  "removeQuotes s = filter (\<lambda>c. c \<noteq> CHR 0x22) s"

text \<open>The replacement \<^verbatim>\<open>replace(/[$,\s]/g, '')\<close> of the amount cells.\<close>

definition cleanAmount :: "string \<Rightarrow> string" where
  "cleanAmount s = filter (\<lambda>c. \<not> (c = CHR ''$'' \<or> c = CHR '','' \<or> isSpace c)) s"

fun findIndex :: "('a \<Rightarrow> bool) \<Rightarrow> 'a list \<Rightarrow> nat option" where
  "findIndex P [] = None"
| "findIndex P (x # xs) = (if P x then Some 0 else map_option Suc (findIndex P xs))"

fun findColumnIndex :: "string list \<Rightarrow> string list \<Rightarrow> nat option" where
  "findColumnIndex header [] = None"
| "findColumnIndex header (keyword # keywords) =
     (case findIndex (\<lambda>h. includes_str h keyword) header of
        Some index \<Rightarrow> Some index
      | None \<Rightarrow> findColumnIndex header keywords)"

text \<open>A cell read as a number: \<^verbatim>\<open>parseFloat(cell ? clean(cell) : '0') || 0\<close>.\<close>

definition cellNumber :: "Runtime \<Rightarrow> string \<Rightarrow> real" where
  "cellNumber rt cell =
     (case parseFloat rt (if cell \<noteq> [] then cleanAmount cell else ''0'') of
        None \<Rightarrow> 0 | Some x \<Rightarrow> x)"

text \<open>
  The body of the \<^verbatim>\<open>forEach\<close> over the rows. A row is skipped, gives a transaction,
  or throws: \<^verbatim>\<open>toISOString\<close> throws a \<^verbatim>\<open>RangeError\<close> on an invalid date, and an
  invalid date is not \<^verbatim>\<open>null\<close>, so that the test \<^verbatim>\<open>if (!date)\<close> lets it through.
\<close>

datatype RowResult = Skip | Row ParsedTransaction | Throws ParseFailure

definition rowCells :: "string \<Rightarrow> string list" where
  "rowCells line = map (\<lambda>v. removeQuotes (trim v)) (splitQuoted line)"

definition parseRow ::
  "Runtime \<Rightarrow> DateFormatHint \<Rightarrow> nat \<Rightarrow> nat \<Rightarrow> nat \<Rightarrow> nat option \<Rightarrow> nat option \<Rightarrow> nat option \<Rightarrow>
    string \<Rightarrow> RowResult" where
  "parseRow rt dateFormatHint headerLength dateIndex descriptionIndex amountIndex creditIndex
      debitIndex line =
     (let values = rowCells line in
      if length values < headerLength then Skip
      else
        (let amt = (case amountIndex of
                      Some ai \<Rightarrow> cellNumber rt (values ! ai)
                    | None \<Rightarrow> minusDouble rt (cellNumber rt (values ! the creditIndex))
                               \<bar>cellNumber rt (values ! the debitIndex)\<bar>);
             dateValue = values ! dateIndex
         in case parseDate rt dateValue dateFormatHint of
              None \<Rightarrow> Skip
            | Some d \<Rightarrow>
                (if values ! descriptionIndex \<noteq> [] then
                   (case toISOString d of
                      Inl e \<Rightarrow> Throws e
                    | Inr isoDate \<Rightarrow>
                        Row \<lparr>date = isoDate, rawDate = dateValue,
                             description = values ! descriptionIndex, amount = amt\<rparr>)
                 else Skip)))"

fun rowsLoop :: "(string \<Rightarrow> RowResult) \<Rightarrow> string list \<Rightarrow> ParsedTransaction list \<Rightarrow>
    ParseFailure + ParsedTransaction list" where
  "rowsLoop row [] transactions = Inr transactions"
| "rowsLoop row (line # body) transactions =
     (case row line of
        Skip \<Rightarrow> rowsLoop row body transactions
      | Row tx \<Rightarrow> rowsLoop row body (transactions @ [tx])
      | Throws e \<Rightarrow> Inl e)"

definition nonBlankLines :: "string \<Rightarrow> string list" where
  "nonBlankLines content = filter (\<lambda>line. trim line \<noteq> []) (splitLines content)"

definition headerCells :: "string \<Rightarrow> string list" where
  "headerCells headerLine = map (\<lambda>h. removeQuotes (toLowerCase (trim h))) (splitComma headerLine)"

definition parseCSV :: "Runtime \<Rightarrow> string \<Rightarrow> DateFormatHint \<Rightarrow> ParseFailure + ParsedTransaction list" where
  "parseCSV rt content dateFormatHint =
     (let lines = nonBlankLines content in
      if length lines < 2 then Inr []
      else
        (let header = headerCells (hd lines);
             body = tl lines;
             dateIndex = findColumnIndex header [''date''];
             descriptionIndex = findColumnIndex header
               [''description'', ''narrative'', ''memo'', ''details'', ''payee''];
             amountIndex = findColumnIndex header [''amount''];
             creditIndex = findColumnIndex header [''credit''];
             debitIndex = findColumnIndex header [''debit'']
         in if dateIndex = None then Inl NoDateColumn
            else if descriptionIndex = None then Inl NoDescriptionColumn
            else if amountIndex = None \<and> \<not> (creditIndex \<noteq> None \<and> debitIndex \<noteq> None)
            then Inl NoAmountColumns
            else
              (case rowsLoop
                      (parseRow rt dateFormatHint (length header) (the dateIndex)
                         (the descriptionIndex) amountIndex creditIndex debitIndex)
                      body [] of
                 Inl e \<Rightarrow> Inl e
               | Inr transactions \<Rightarrow>
                   if length transactions = 0 then Inl NoValidTransactions
                   else Inr transactions)))"

section \<open>Two runtimes\<close>

text \<open>
  \<^verbatim>\<open>Date.parse\<close> on the date-time string format of ECMAScript, for the forms
  \<^verbatim>\<open>YYYY-MM-DD\<close> (a date alone is read as UTC) and \<^verbatim>\<open>YYYY-MM-DDTHH:mm:ssZ\<close>; every
  other string is \<^verbatim>\<open>NaN\<close>, which a runtime is free to answer outside the format.
\<close>

definition field :: "nat \<Rightarrow> nat \<Rightarrow> string \<Rightarrow> int option" where
  "field from len s =
     (if from + len \<le> length s \<and> list_all isDigit (take len (drop from s))
      then Some (parseDigits (take len (drop from s))) else None)"

definition isoDay :: "string \<Rightarrow> int option" where
  "isoDay s =
     (case (field 0 4 s, field 5 2 s, field 8 2 s) of
        (Some y, Some m, Some d) \<Rightarrow>
          (if s ! 4 = CHR ''-'' \<and> s ! 7 = CHR ''-'' \<and> 1 \<le> m \<and> m \<le> 12 \<and> 1 \<le> d \<and> d \<le> 31
           then Some (MakeDay y (m - 1) d) else None)
      | _ \<Rightarrow> None)"

definition isoTime :: "string \<Rightarrow> int option" where
  "isoTime s =
     (case (field 11 2 s, field 14 2 s, field 17 2 s) of
        (Some h, Some mi, Some sec) \<Rightarrow>
          (if s ! 10 = CHR ''T'' \<and> s ! 13 = CHR '':'' \<and> s ! 16 = CHR '':'' \<and> s ! 19 = CHR ''Z''
              \<and> h \<le> 23 \<and> mi \<le> 59 \<and> sec \<le> 59
           then Some (h * 3600000 + mi * 60000 + sec * 1000) else None)
      | _ \<Rightarrow> None)"

definition Date_parse_iso :: "string \<Rightarrow> int option" where
  "Date_parse_iso s =
     (if length s = 10 then map_option (\<lambda>day. day * msPerDay) (isoDay s)
      else if length s = 20 then
        (case (isoDay s, isoTime s) of
           (Some day, Some w) \<Rightarrow> Some (day * msPerDay + w)
         | _ \<Rightarrow> None)
      else None)"

text \<open>
  \<^verbatim>\<open>parseFloat\<close> on an optional sign, digits and an optional fraction (the amounts of
  the examples); every other string is \<^verbatim>\<open>NaN\<close> here.
\<close>

definition decimal :: "string \<Rightarrow> real option" where
  "decimal s =
     (let ip = takeWhile isDigit s; r = dropWhile isDigit s in
      if ip = [] then None
      else if r = [] then Some (real_of_int (parseDigits ip))
      else if hd r = CHR ''.'' \<and> tl r \<noteq> [] \<and> list_all isDigit (tl r)
      then Some (real_of_int (parseDigits ip) + real_of_int (parseDigits (tl r)) / 10 ^ length (tl r))
      else None)"

definition parseFloat_decimal :: "string \<Rightarrow> real option" where
  "parseFloat_decimal s =
     (case s of
        [] \<Rightarrow> None
      | c # cs \<Rightarrow> if c = CHR ''-'' then map_option uminus (decimal cs)
                  else if c = CHR ''+'' then decimal cs
                  else decimal s)"

text \<open>A runtime in UTC with a month-first locale, and one ten hours ahead of UTC with a
  day-first locale (no daylight saving time).\<close>

definition runtimeUTC :: Runtime where
  "runtimeUTC = \<lparr>Date_parse = Date_parse_iso, LocalTZA = (\<lambda>t isUTC. 0),
                 localeDayFirst = False, parseFloat = parseFloat_decimal,
                 minusDouble = (\<lambda>x y. x - y)\<rparr>"

definition runtimePlus10 :: Runtime where
  "runtimePlus10 = \<lparr>Date_parse = Date_parse_iso, LocalTZA = (\<lambda>t isUTC. 36000000),
                    localeDayFirst = True, parseFloat = parseFloat_decimal,
                    minusDouble = (\<lambda>x y. x - y)\<rparr>"

section \<open>Statements of the specification\<close>




text \<open>The provenance invariant: at most one of the two flags is set.\<close>

definition flagsOk :: "Transaction \<Rightarrow> bool" where
  "flagsOk t = (\<not> (categorizedByRule t \<and> categorizedByAI t))"

text \<open>
  The entries of a response that the client keeps for an index: those with this number
  as \<^verbatim>\<open>index\<close> and a string as \<^verbatim>\<open>categoryId\<close>; and the category of the last of
  them.
\<close>

definition entryFor :: "real \<Rightarrow> json \<Rightarrow> bool" where
  "entryFor i item =
     (getField ''index'' item = JNumber i
      \<and> (case getField ''categoryId'' item of JString c \<Rightarrow> True | _ \<Rightarrow> False))"

definition categoryOf :: "json \<Rightarrow> string option" where
  "categoryOf item = (case getField ''categoryId'' item of JString c \<Rightarrow> Some c | _ \<Rightarrow> None)"

definition lastEntry :: "json list \<Rightarrow> real \<Rightarrow> string option" where
  "lastEntry items i =
     (case rev (filter (entryFor i) items) of [] \<Rightarrow> None | item # earlier \<Rightarrow> categoryOf item)"

text \<open>
  Two outcomes of a service call are the same for a batch when both throw the same, or
  both are maps that agree at the indices of the batch.
\<close>

definition sameAnswers ::
  "BatchItem list \<Rightarrow> AIError + (real \<rightharpoonup> string) \<Rightarrow> AIError + (real \<rightharpoonup> string) \<Rightarrow> bool" where
  "sameAnswers batch a b =
     (case a of
        Inl e \<Rightarrow> b = Inl e
      | Inr m \<Rightarrow>
          (case b of
             Inl e \<Rightarrow> False
           | Inr m' \<Rightarrow> (\<forall>item\<in>set batch. m (real (snd item)) = m' (real (snd item)))))"

text \<open>
  Normalization of a description in the words of the specification: the words of the
  text (its maximal runs of code units that are not white space), lower-cased and joined
  by single spaces.
\<close>

fun wordsFrom :: "string \<Rightarrow> string \<Rightarrow> string list" where
  "wordsFrom w [] = (if w = [] then [] else [w])"
| "wordsFrom w (c # cs) =
     (if isSpace c then (if w = [] then wordsFrom [] cs else w # wordsFrom [] cs)
      else wordsFrom (w @ [c]) cs)"

fun joinWords :: "string list \<Rightarrow> string" where
  "joinWords [] = []"
| "joinWords [w] = w"
| "joinWords (w # v # ws) = w @ CHR '' '' # joinWords (v # ws)"

definition normalized :: "string \<Rightarrow> string" where
  "normalized s = joinWords (map toLowerCase (wordsFrom [] s))"

definition fingerprint :: "(real \<Rightarrow> string) \<Rightarrow> 'a ParsedTransaction_scheme \<Rightarrow> string" where
  "fingerprint numberToString t =
     date t @ ''|'' @ numberToString (amount t) @ ''|'' @ normalized (description t)"

text \<open>The three groups of a numeric date, in the words of the specification.\<close>

definition numericDate :: "string \<Rightarrow> string \<Rightarrow> string \<Rightarrow> char \<Rightarrow> char \<Rightarrow> string" where
  "numericDate g1 g2 g3 s1 s2 = g1 @ s1 # g2 @ s2 # g3"

definition numericGroups :: "string \<Rightarrow> string \<Rightarrow> string \<Rightarrow> char \<Rightarrow> char \<Rightarrow> bool" where
  "numericGroups g1 g2 g3 s1 s2 =
     (list_all isDigit g1 \<and> length g1 \<in> {1, 2} \<and> list_all isDigit g2 \<and> length g2 \<in> {1, 2}
      \<and> list_all isDigit g3 \<and> length g3 \<in> {2, 3, 4} \<and> isSep s1 \<and> isSep s2)"

text \<open>
  The words of the specification about \<^verbatim>\<open>parseCSV\<close>: a column is detected when a cell
  of the header contains one of its keywords; the header and the rows of a file; and the
  transactions of the rows that parse, in the order of the file.
\<close>

definition detected :: "string list \<Rightarrow> string list \<Rightarrow> bool" where
  "detected header keywords = (\<exists>keyword\<in>set keywords. \<exists>h\<in>set header. includes_str h keyword)"

definition descriptionKeywords :: "string list" where
  "descriptionKeywords = [''description'', ''narrative'', ''memo'', ''details'', ''payee'']"

definition csvHeader :: "string \<Rightarrow> string list" where
  "csvHeader content = headerCells (hd (nonBlankLines content))"

definition csvRow :: "Runtime \<Rightarrow> DateFormatHint \<Rightarrow> string \<Rightarrow> string \<Rightarrow> RowResult" where
  "csvRow rt hint content line =
     parseRow rt hint (length (csvHeader content))
       (the (findColumnIndex (csvHeader content) [''date'']))
       (the (findColumnIndex (csvHeader content) descriptionKeywords))
       (findColumnIndex (csvHeader content) [''amount''])
       (findColumnIndex (csvHeader content) [''credit''])
       (findColumnIndex (csvHeader content) [''debit''])
       line"

definition parsedRows :: "(string \<Rightarrow> RowResult) \<Rightarrow> string list \<Rightarrow> ParsedTransaction list" where
  "parsedRows row body = concat (map (\<lambda>line. case row line of Row tx \<Rightarrow> [tx] | _ \<Rightarrow> []) body)"

definition csvTransactions :: "Runtime \<Rightarrow> DateFormatHint \<Rightarrow> string \<Rightarrow> ParsedTransaction list" where
  "csvTransactions rt hint content =
     parsedRows (csvRow rt hint content) (tl (nonBlankLines content))"

section \<open>Example inputs\<close>

definition R1 :: Rule where
  "R1 = \<lparr>id_rule = ''r1'', conditionType = contains, conditionValue = ''STAR'',
         categoryId_rule = ''catA''\<rparr>"

definition R2 :: Rule where
  "R2 = \<lparr>id_rule = ''r2'', conditionType = contains, conditionValue = ''STARBUCKS'',
         categoryId_rule = ''catB''\<rparr>"

definition R3 :: Rule where
  "R3 = \<lparr>id_rule = ''r3'', conditionType = startsWith_cond, conditionValue = ''Salary'',
         categoryId_rule = ''cat-income''\<rparr>"

text \<open>Rules in lower case for a description in capitals with a letter of Latin-1.\<close>

definition cafeNero :: string where
  "cafeNero = ''CAF'' @ [CHR 0xC9] @ '' NERO''"



definition exCategories :: "Category list" where
  "exCategories =
     [\<lparr>id_cat = ''cat-uncategorized'', name = ''Uncategorized''\<rparr>,
      \<lparr>id_cat = ''cat-groceries'', name = ''Groceries''\<rparr>,
      \<lparr>id_cat = ''cat-income'', name = ''Income''\<rparr>]"

definition exParsed :: "ParsedTransaction list" where
  "exParsed =
     [\<lparr>date = ''2024-02-01T00:00:00.000Z'', rawDate = ''01/02/2024'',
       description = ''STARBUCKS #123'', amount = - 6\<rparr>,
      \<lparr>date = ''2024-02-01T00:00:00.000Z'', rawDate = ''01/02/2024'',
       description = ''SALARY PTY LTD'', amount = 50\<rparr>,
      \<lparr>date = ''2024-02-02T00:00:00.000Z'', rawDate = ''02/02/2024'',
       description = ''WOOLWORTHS 123'', amount = - 50\<rparr>]"

definition exLedger :: "Transaction list" where
  "exLedger =
     [\<lparr>date = ''2024-02-01T00:00:00.000Z'', rawDate = ''01/02/2024'',
       description = ''Salary  Pty Ltd '', amount = 50,
       id_tx = ''txn-1000-0'', categoryId = None,
       categorizedByRule = True, categorizedByAI = True\<rparr>,
      \<lparr>date = ''2024-01-15T00:00:00.000Z'', rawDate = ''15/01/2024'',
       description = ''RENT'', amount = - 400,
       id_tx = ''txn-1000-1'', categoryId = Some ''cat-uncategorized'',
       categorizedByRule = False, categorizedByAI = False\<rparr>]"

text \<open>An entry of a response body, and the body with a list of entries as its results.\<close>

definition entry :: "real \<Rightarrow> string \<Rightarrow> json" where
  "entry i c = JObject [(''index'', JNumber i), (''categoryId'', JString c)]"

definition body :: "json list \<Rightarrow> json" where
  "body items = JObject [(''results'', JArray items)]"

text \<open>
  A service that answers every batch with an empty result list, one that answers with a
  non-2xx status, and one whose second call is rejected.
\<close>

definition fetchNothing :: "nat \<Rightarrow> Fetch" where
  "fetchNothing call batch categories = Ok (body [])"

definition fetchDown :: "nat \<Rightarrow> Fetch" where
  "fetchDown call batch categories = NotOk"

definition fetchSecondRejected :: "nat \<Rightarrow> Fetch" where
  "fetchSecondRejected call batch categories = (if call = 1 then Rejected else Ok (body []))"

text \<open>
  A service that answers with the sentinel for index \<open>0\<close>, as the prompt asks the model
  to do for a transaction it is unsure about, and an import of one inflow.
\<close>

definition fetchSentinel :: "nat \<Rightarrow> Fetch" where
  "fetchSentinel call batch categories = Ok (body [entry 0 ''cat-uncategorized''])"

definition exInflow :: "ParsedTransaction list" where
  "exInflow =
     [\<lparr>date = ''2024-02-01T00:00:00.000Z'', rawDate = ''01/02/2024'',
       description = ''SALARY PTY LTD'', amount = 50\<rparr>]"

text \<open>
  An answer to the batch of indices \<open>0, 1, 2\<close> that names index \<open>5\<close>, a category that
  is not in the catalog, and index \<open>1\<close> twice; and an answer with a null entry.
\<close>

definition exBatch :: "BatchItem list" where
  "exBatch = [(''STARBUCKS #123'', 0), (''SALARY PTY LTD'', 1), (''WOOLWORTHS 123'', 2)]"

definition exAnswer :: "json list" where
  "exAnswer = [entry 0 ''cat-groceries'', entry 5 ''cat-groceries'',
               entry 2 ''cat-doesnotexist'', entry 1 ''cat-groceries'', entry 1 ''cat-income'']"

definition fetchMalformed :: Fetch where
  "fetchMalformed batch categories = Ok (body exAnswer)"

definition fetchNullEntry :: Fetch where
  "fetchNullEntry batch categories = Ok (body [entry 0 ''cat-groceries'', JNull])"

text \<open>A service that answers every batch with one entry, for the index \<open>-1\<close>.\<close>

definition fetchStray :: "nat \<Rightarrow> Fetch" where
  "fetchStray call batch categories = Ok (body [entry (- 1) ''cat-groceries''])"

definition clock :: "nat \<Rightarrow> int" where
  "clock index = 1000"

text \<open>The rendering of an amount in a template string, for amounts that are integers.\<close>

definition numberToStringInt :: "real \<Rightarrow> string" where
  "numberToStringInt x = showInt \<lfloor>x\<rfloor>"

text \<open>
  A decoded model answer as the service handler sees it, with an entry for an index that
  was not requested, an entry for an unknown category, a null entry and an entry whose
  index is a string; and the service that sends back what the handler lets through.
\<close>

definition exRaw :: json where
  "exRaw = JArray
     [entry 0 ''cat-groceries'', entry 5 ''cat-groceries'', entry 2 ''cat-doesnotexist'', JNull,
      JObject [(''index'', JString ''1''), (''categoryId'', JString ''cat-income'')]]"

definition fetchFiltered :: Fetch where
  "fetchFiltered batch categories = Ok (handlerBody exRaw categories)"

text \<open>
  A ledger with one transaction in capitals, and a file with two rows that differ from
  it in case and white space only and two rows that are new and differ from each other
  in case and white space only.
\<close>

definition cafeLedger :: "Transaction list" where
  "cafeLedger =
     [\<lparr>date = ''2024-03-01T00:00:00.000Z'', rawDate = ''01/03/2024'',
       description = cafeNero, amount = - 4,
       id_tx = ''txn-2000-0'', categoryId = Some ''cat-groceries'',
       categorizedByRule = False, categorizedByAI = True\<rparr>]"

definition cafeRow :: "string \<Rightarrow> ParsedTransaction" where
  "cafeRow d = \<lparr>date = ''2024-03-01T00:00:00.000Z'', rawDate = ''1/3/2024'',
                 description = d, amount = - 4\<rparr>"

definition cafeParsed :: "ParsedTransaction list" where
  "cafeParsed =
     [cafeRow ('' caf'' @ [CHR 0xE9, CHR 0x09] @ '' Nero ''), cafeRow ''TEA HOUSE'',
      cafeRow (''Caf'' @ [CHR 0xC9] @ '' nero''), cafeRow ''Tea  house '']"

text \<open>Example files: a header alone, the two rows of the end-to-end scenario, a row with a
  time of day, and a row whose year is out of range.\<close>

definition csvHeaderOnly :: string where
  "csvHeaderOnly = ''Date,Description,Amount''"

definition csvTwoRows :: string where
  "csvTwoRows = ''Date,Description,Amount'' @ [CHR 0x0A]
     @ ''01/02/2024,'' @ [CHR 0x22] @ ''WOOLWORTHS 123'' @ [CHR 0x22] @ '',-45.20'' @ [CHR 0x0A]
     @ ''01/02/2024,'' @ [CHR 0x22] @ ''SALARY PTY LTD'' @ [CHR 0x22] @ '',2500.00''"

definition csvTimestamp :: string where
  "csvTimestamp = ''Date,Description,Amount'' @ [CHR 0x0A] @ ''2025-12-05T10:30:00Z,COFFEE,-4''"

definition csvHugeYear :: string where
  "csvHugeYear = ''Date,Description,Amount'' @ [CHR 0x0A] @ ''1/1/999999999,COFFEE,-4''"


section \<open>Properties of the strings\<close>



text \<open>
  \<^verbatim>\<open>toLowerCase\<close> adds 32 to the code unit of a capital letter and keeps every other
  code unit; so two code units have the same lower case exactly when they are the same
  letter, and two strings exactly when they are the same text.
\<close>

lemma lower_char_code:
  "(of_char (lower_char c) :: nat) = (if isUpper c then of_char c + 32 else of_char c)"
proof -
  have "\<forall>n<31. (of_char (lowerLatin1 ! n) :: nat) = n + 224"
    by (simp add: lowerLatin1_def All_less_Suc numeral_eq_Suc)
  moreover have "\<forall>n<26. (of_char (''abcdefghijklmnopqrstuvwxyz'' ! n) :: nat) = n + 97"
    by (simp add: All_less_Suc numeral_eq_Suc)
  ultimately show ?thesis
    by (auto simp: lower_char_def isUpper_def Let_def)
qed



lemma isSpace_lower_char: "isSpace (lower_char c) = isSpace c"
proof -
  have "(of_char (lower_char c) :: nat) \<in> {9, 10, 11, 12, 13, 32, 160}
      \<longleftrightarrow> (of_char c :: nat) \<in> {9, 10, 11, 12, 13, 32, 160}"
    unfolding lower_char_code by (auto simp: isUpper_def Let_def)
  then show ?thesis by (simp add: isSpace_def)
qed


section \<open>Rule precedence\<close>




lemma applyRules_shape:
  "applyRules d rules = (None, False) \<or> (\<exists>c. applyRules d rules = (Some c, True))"
  by (induction rules) auto

lemmas string_eval = toLowerCase_def lower_char_def lowerLatin1_def isSpace_def trim_def
  truthy_def orElse_def



section \<open>Writes by index\<close>

text \<open>
  Both batch passes are a fold of writes by index. What such a fold leaves in the array:
  its length, the slots it does not touch, and in a touched slot the record built from
  one of the elements that name this slot.
\<close>

lemma fold_update_length:
  "length (fold (\<lambda>t f. f[snd t := Some (g t)]) batch final) = length final"
  by (induction batch arbitrary: final) auto

lemma fold_update_other:
  "j \<notin> snd ` set batch \<Longrightarrow> fold (\<lambda>t f. f[snd t := Some (g t)]) batch final ! j = final ! j"
  by (induction batch arbitrary: final) auto

lemma fold_update_hit:
  "j \<in> snd ` set batch \<Longrightarrow> j < length final \<Longrightarrow>
   \<exists>t\<in>set batch. snd t = j \<and> fold (\<lambda>t f. f[snd t := Some (g t)]) batch final ! j = Some (g t)"
proof (induction batch arbitrary: final)
  case Nil
  then show ?case by simp
next
  case (Cons t ts)
  show ?case
  proof (cases "j \<in> snd ` set ts")
    case True
    have "j < length (final[snd t := Some (g t)])" using Cons.prems by simp
    from Cons.IH [OF True this] show ?thesis by auto
  next
    case False
    then have "snd t = j" using Cons.prems by auto
    moreover have "fold (\<lambda>t f. f[snd t := Some (g t)]) ts (final[snd t := Some (g t)]) ! j
        = (final[snd t := Some (g t)]) ! j"
      using False by (rule fold_update_other)
    ultimately show ?thesis using Cons.prems by auto
  qed
qed

lemma drop_batch_split: "drop i xs = take bs (drop i xs) @ drop (i + bs) xs"
proof -
  have "take bs (drop i xs) @ drop bs (drop i xs) = drop i xs"
    by (rule append_take_drop_id)
  moreover have "drop bs (drop i xs) = drop (i + bs) xs"
    by (simp add: add.commute)
  ultimately show ?thesis by simp
qed

section \<open>Import path: what every slot holds\<close>

lemma rulePass_length:
  "length (fst (rulePass rules now pts index final forAI)) = length final"
  by (induction pts arbitrary: index final forAI) (auto split: prod.splits bool.splits)

lemma rulePass_other:
  "\<not> (index \<le> j \<and> j < index + length pts) \<Longrightarrow>
   fst (rulePass rules now pts index final forAI) ! j = final ! j"
  by (induction pts arbitrary: index final forAI) (auto split: prod.splits bool.splits)

lemma rulePass_slot:
  "index + length pts \<le> length final \<Longrightarrow> k < length pts \<Longrightarrow>
   fst (rulePass rules now pts index final forAI) ! (index + k) =
     (case applyRules (toLowerCase (description (pts ! k))) rules of
        (cid, True) \<Rightarrow> Some (ruleTransaction now (index + k) (pts ! k) cid)
      | (cid, False) \<Rightarrow> final ! (index + k))"
proof (induction pts arbitrary: index final forAI k)
  case Nil
  then show ?case by simp
next
  case (Cons pt pts)
  show ?case
  proof (cases k)
    case 0
    then show ?thesis using Cons.prems
      by (auto split: prod.splits bool.splits simp: rulePass_other)
  next
    case (Suc k')
    have l: "Suc index + length pts \<le> length final" and k': "k' < length pts"
      using Cons.prems Suc by auto
    show ?thesis using Suc Cons.IH [of "Suc index" _ k'] l k'
      by (auto split: prod.splits bool.splits)
  qed
qed

lemma rulePass_forAI:
  "set (snd (rulePass rules now pts index final forAI)) =
   set forAI \<union> {(pts ! k, index + k) | k. k < length pts \<and>
                   \<not> snd (applyRules (toLowerCase (description (pts ! k))) rules)}"
proof (induction pts arbitrary: index final forAI)
  case Nil
  then show ?case by simp
next
  case (Cons pt pts)
  have split: "\<And>P. {(((pt # pts) ! k), index + k) | k. k < length (pt # pts) \<and> P k} =
      (if P 0 then {(pt, index)} else {}) \<union> {(pts ! k, Suc index + k) | k. k < length pts \<and> P (Suc k)}"
  proof -
    fix P :: "nat \<Rightarrow> bool"
    show "{(((pt # pts) ! k), index + k) | k. k < length (pt # pts) \<and> P k} =
      (if P 0 then {(pt, index)} else {}) \<union> {(pts ! k, Suc index + k) | k. k < length pts \<and> P (Suc k)}"
      (is "?L = ?R")
    proof
      show "?L \<subseteq> ?R"
      proof
        fix x assume "x \<in> ?L"
        then obtain k where k: "x = ((pt # pts) ! k, index + k)" "k < length (pt # pts)" "P k" by auto
        show "x \<in> ?R"
        proof (cases k)
          case 0
          then show ?thesis using k by auto
        next
          case (Suc k')
          then have "x = (pts ! k', Suc index + k')" "k' < length pts" "P (Suc k')" using k by auto
          then show ?thesis by blast
        qed
      qed
      show "?R \<subseteq> ?L"
      proof
        fix x assume "x \<in> ?R"
        then consider "P 0" "x = (pt, index)"
          | k where "x = (pts ! k, Suc index + k)" "k < length pts" "P (Suc k)"
          by (auto split: if_splits)
        then show "x \<in> ?L"
        proof cases
          case 1
          then have "x = ((pt # pts) ! 0, index + 0) \<and> 0 < length (pt # pts) \<and> P 0" by simp
          then show ?thesis by blast
        next
          case 2
          then have "x = ((pt # pts) ! Suc k, index + Suc k) \<and> Suc k < length (pt # pts) \<and> P (Suc k)"
            by simp
          then show ?thesis by blast
        qed
      qed
    qed
  qed
  show ?case
    unfolding split [of "\<lambda>k. \<not> snd (applyRules (toLowerCase (description ((pt # pts) ! k))) rules)"]
    using Cons.IH [of "Suc index"]
    by (auto split: prod.splits bool.splits)
qed


text \<open>
  The batch loop returns when the batch size is positive. It returns what a call threw,
  or the array in which every slot named by a transaction still to be sent holds the
  record built from the answer to the batch that holds this transaction (batch number
  \<open>m\<close> from here is the call \<open>call + m\<close>), and every other slot is as it was.
\<close>

lemma batchLoop_slots:
  assumes bs: "0 < bs" and rng: "\<forall>t\<in>set xs. snd t < length final"
  shows "\<exists>r. batchLoop fetch now cats bs xs i call final = Some r \<and>
          (case r of
             Inl e \<Rightarrow> \<exists>m. i + m * bs < length xs \<and>
                      batchResults (fetch (call + m)) cats (take bs (drop (i + m * bs) xs)) = Inl e
           | Inr final' \<Rightarrow>
               length final' = length final
               \<and> (\<forall>j. j \<notin> snd ` set (drop i xs) \<longrightarrow> final' ! j = final ! j)
               \<and> (\<forall>j\<in>snd ` set (drop i xs). \<exists>m aiResults t.
                     batchResults (fetch (call + m)) cats (take bs (drop (i + m * bs) xs))
                       = Inr aiResults
                     \<and> t \<in> set (take bs (drop (i + m * bs) xs)) \<and> snd t = j
                     \<and> final' ! j = Some (aiTransaction now aiResults (categoryNameToIdMap cats) t)))"
  using rng
proof (induction "length xs - i" arbitrary: i call final rule: less_induct)
  case less
  show ?case
  proof (cases "i < length xs")
    case False
    then show ?thesis by (simp add: batchLoop.simps)
  next
    case True
    define batch where "batch = take bs (drop i xs)"
    show ?thesis
    proof (cases "batchResults (fetch call) cats batch")
      case (Inl e)
      then have stop: "batchLoop fetch now cats bs xs i call final = Some (Inl e)"
        using True by (subst batchLoop.simps) (simp add: batch_def)
      have "i + 0 * bs < length xs \<and>
          batchResults (fetch (call + 0)) cats (take bs (drop (i + 0 * bs) xs)) = Inl e"
        using True Inl by (simp add: batch_def)
      then have "\<exists>m. i + m * bs < length xs \<and>
          batchResults (fetch (call + m)) cats (take bs (drop (i + m * bs) xs)) = Inl e"
        by (rule exI)
      then show ?thesis using stop by simp
    next
      case (Inr res)
      define final1 where "final1 = batchPass now res (categoryNameToIdMap cats) batch final"
      have len1: "length final1 = length final"
        by (simp add: final1_def batchPass_def fold_update_length)
      have sub: "set batch \<subseteq> set xs"
        unfolding batch_def using set_take_subset set_drop_subset by fast
      have dec: "length xs - (i + bs) < length xs - i" using True bs by arith
      have rng1: "\<forall>t\<in>set xs. snd t < length final1" using less.prems len1 by simp
      have unfold: "batchLoop fetch now cats bs xs i call final
          = batchLoop fetch now cats bs xs (i + bs) (call + 1) final1"
        using True Inr by (subst batchLoop.simps) (simp add: final1_def batch_def)
      have shift: "\<And>m. i + bs + m * bs = i + Suc m * bs" "\<And>m. call + 1 + m = call + Suc m"
        by simp_all
      from less.hyps [OF dec rng1, of "call + 1"]
      obtain r where run: "batchLoop fetch now cats bs xs (i + bs) (call + 1) final1 = Some r"
        and r: "case r of
             Inl e \<Rightarrow> \<exists>m. i + bs + m * bs < length xs \<and>
                      batchResults (fetch (call + 1 + m)) cats (take bs (drop (i + bs + m * bs) xs))
                        = Inl e
           | Inr final' \<Rightarrow>
               length final' = length final1
               \<and> (\<forall>j. j \<notin> snd ` set (drop (i + bs) xs) \<longrightarrow> final' ! j = final1 ! j)
               \<and> (\<forall>j\<in>snd ` set (drop (i + bs) xs). \<exists>m aiResults t.
                     batchResults (fetch (call + 1 + m)) cats (take bs (drop (i + bs + m * bs) xs))
                       = Inr aiResults
                     \<and> t \<in> set (take bs (drop (i + bs + m * bs) xs)) \<and> snd t = j
                     \<and> final' ! j = Some (aiTransaction now aiResults (categoryNameToIdMap cats) t))"
        by blast
      show ?thesis
      proof (cases r)
        case (Inl e)
        with r obtain m where "i + Suc m * bs < length xs \<and>
            batchResults (fetch (call + Suc m)) cats (take bs (drop (i + Suc m * bs) xs)) = Inl e"
          unfolding shift by auto
        then have "\<exists>m. i + m * bs < length xs \<and>
            batchResults (fetch (call + m)) cats (take bs (drop (i + m * bs) xs)) = Inl e"
          by blast
        then show ?thesis using unfold run Inl by simp
      next
        case (Inr final')
        with r have len': "length final' = length final1"
          and other': "\<forall>j. j \<notin> snd ` set (drop (i + bs) xs) \<longrightarrow> final' ! j = final1 ! j"
          and hit': "\<forall>j\<in>snd ` set (drop (i + bs) xs). \<exists>m aiResults t.
                     batchResults (fetch (call + Suc m)) cats (take bs (drop (i + Suc m * bs) xs))
                       = Inr aiResults
                     \<and> t \<in> set (take bs (drop (i + Suc m * bs) xs)) \<and> snd t = j
                     \<and> final' ! j = Some (aiTransaction now aiResults (categoryNameToIdMap cats) t)"
          unfolding shift by simp_all
        have parts: "set (drop i xs) = set batch \<union> set (drop (i + bs) xs)"
          using drop_batch_split [of i xs bs] by (metis batch_def set_append)
        have other: "\<forall>j. j \<notin> snd ` set (drop i xs) \<longrightarrow> final' ! j = final ! j"
        proof (intro allI impI)
          fix j assume j: "j \<notin> snd ` set (drop i xs)"
          then have "j \<notin> snd ` set batch" "j \<notin> snd ` set (drop (i + bs) xs)"
            using parts by auto
          then show "final' ! j = final ! j"
            using other' by (simp add: final1_def batchPass_def fold_update_other)
        qed
        have hit: "\<forall>j\<in>snd ` set (drop i xs). \<exists>m aiResults t.
                     batchResults (fetch (call + m)) cats (take bs (drop (i + m * bs) xs))
                       = Inr aiResults
                     \<and> t \<in> set (take bs (drop (i + m * bs) xs)) \<and> snd t = j
                     \<and> final' ! j = Some (aiTransaction now aiResults (categoryNameToIdMap cats) t)"
        proof
          fix j assume j: "j \<in> snd ` set (drop i xs)"
          show "\<exists>m aiResults t.
                     batchResults (fetch (call + m)) cats (take bs (drop (i + m * bs) xs))
                       = Inr aiResults
                     \<and> t \<in> set (take bs (drop (i + m * bs) xs)) \<and> snd t = j
                     \<and> final' ! j = Some (aiTransaction now aiResults (categoryNameToIdMap cats) t)"
          proof (cases "j \<in> snd ` set (drop (i + bs) xs)")
            case True
            then show ?thesis using hit' by blast
          next
            case False
            then have jb: "j \<in> snd ` set batch" using j parts by auto
            then have "j < length final" using sub less.prems by auto
            from fold_update_hit [OF jb this, of "aiTransaction now res (categoryNameToIdMap cats)"]
            obtain t where t: "t \<in> set batch" "snd t = j"
              "final1 ! j = Some (aiTransaction now res (categoryNameToIdMap cats) t)"
              by (auto simp: final1_def batchPass_def)
            have "final' ! j = final1 ! j" using other' False by simp
            then have "batchResults (fetch (call + 0)) cats (take bs (drop (i + 0 * bs) xs)) = Inr res
                \<and> t \<in> set (take bs (drop (i + 0 * bs) xs)) \<and> snd t = j
                \<and> final' ! j = Some (aiTransaction now res (categoryNameToIdMap cats) t)"
              using t \<open>batchResults (fetch call) cats batch = Inr res\<close> by (simp add: batch_def)
            then show ?thesis by blast
          qed
        qed
        show ?thesis using unfold run Inr len' len1 other hit by simp
      qed
    qed
  qed
qed

lemma getBatchSize_pos: "0 < getBatchSize stored"
  by (simp add: getBatchSize_def DEFAULT_AI_BATCH_SIZE_def split: option.splits)

lemma categorizeTransactions_slots:
  "\<exists>r. categorizeTransactions fetch now stored pts rules cats = Some r \<and>
     (case r of
        Inl e \<Rightarrow> \<exists>call batch. batchResults (fetch call) cats batch = Inl e
      | Inr final \<Rightarrow>
          length final = length pts
          \<and> (\<forall>i<length pts.
                 case applyRules (toLowerCase (description (pts ! i))) rules of
                   (cid, True) \<Rightarrow> final ! i = Some (ruleTransaction now i (pts ! i) cid)
                 | (cid, False) \<Rightarrow>
                     (\<exists>call batch aiResults.
                        batchResults (fetch call) cats batch = Inr aiResults
                        \<and> (pts ! i, i) \<in> set batch
                        \<and> final ! i = Some (aiTransaction now aiResults
                                             (categoryNameToIdMap cats) (pts ! i, i)))))"
proof -
  define init where "init = replicate (length pts) (None :: Transaction option)"
  define rp where "rp = rulePass rules now pts 0 init []"
  have len0: "length (fst rp) = length pts"
    by (simp add: rp_def init_def rulePass_length)
  have ai: "set (snd rp) = {(pts ! k, k) | k. k < length pts \<and>
                   \<not> snd (applyRules (toLowerCase (description (pts ! k))) rules)}"
    using rulePass_forAI [of rules now pts 0 init "[]"] by (simp add: rp_def)
  have slot: "\<And>k. k < length pts \<Longrightarrow> fst rp ! k =
     (case applyRules (toLowerCase (description (pts ! k))) rules of
        (cid, True) \<Rightarrow> Some (ruleTransaction now k (pts ! k) cid)
      | (cid, False) \<Rightarrow> None)"
    using rulePass_slot [of 0 pts init _ rules now "[]"] by (simp add: rp_def init_def)
  have rng: "\<forall>t\<in>set (snd rp). snd t < length (fst rp)"
    using ai len0 by auto
  have def: "categorizeTransactions fetch now stored pts rules cats
      = batchLoop fetch now cats (getBatchSize stored) (snd rp) 0 0 (fst rp)"
    by (auto simp: categorizeTransactions_def rp_def init_def split: prod.splits)
  from batchLoop_slots [OF getBatchSize_pos rng, where fetch = fetch and now = now and cats = cats
      and i = 0 and call = 0 and stored1 = stored]
  obtain r where run: "batchLoop fetch now cats (getBatchSize stored) (snd rp) 0 0 (fst rp) = Some r"
    and r: "case r of
             Inl e \<Rightarrow> \<exists>m. 0 + m * getBatchSize stored < length (snd rp) \<and>
                      batchResults (fetch (0 + m)) cats
                        (take (getBatchSize stored) (drop (0 + m * getBatchSize stored) (snd rp)))
                        = Inl e
           | Inr final' \<Rightarrow>
               length final' = length (fst rp)
               \<and> (\<forall>j. j \<notin> snd ` set (drop 0 (snd rp)) \<longrightarrow> final' ! j = fst rp ! j)
               \<and> (\<forall>j\<in>snd ` set (drop 0 (snd rp)). \<exists>m aiResults t.
                     batchResults (fetch (0 + m)) cats
                       (take (getBatchSize stored) (drop (0 + m * getBatchSize stored) (snd rp)))
                       = Inr aiResults
                     \<and> t \<in> set (take (getBatchSize stored)
                                  (drop (0 + m * getBatchSize stored) (snd rp)))
                     \<and> snd t = j
                     \<and> final' ! j = Some (aiTransaction now aiResults (categoryNameToIdMap cats) t))"
    by blast
  show ?thesis
  proof (cases r)
    case (Inl e)
    with r have "\<exists>call batch. batchResults (fetch call) cats batch = Inl e" by auto
    then show ?thesis using def run Inl by simp
  next
    case (Inr final)
    with r have len: "length final = length (fst rp)"
      and other: "\<forall>j. j \<notin> snd ` set (snd rp) \<longrightarrow> final ! j = fst rp ! j"
      and hit: "\<forall>j\<in>snd ` set (snd rp). \<exists>m aiResults t.
                     batchResults (fetch m) cats
                       (take (getBatchSize stored) (drop (m * getBatchSize stored) (snd rp)))
                       = Inr aiResults
                     \<and> t \<in> set (take (getBatchSize stored) (drop (m * getBatchSize stored) (snd rp)))
                     \<and> snd t = j
                     \<and> final ! j = Some (aiTransaction now aiResults (categoryNameToIdMap cats) t)"
      by simp_all
    have each: "\<forall>i<length pts.
                 case applyRules (toLowerCase (description (pts ! i))) rules of
                   (cid, True) \<Rightarrow> final ! i = Some (ruleTransaction now i (pts ! i) cid)
                 | (cid, False) \<Rightarrow>
                     (\<exists>call batch aiResults.
                        batchResults (fetch call) cats batch = Inr aiResults
                        \<and> (pts ! i, i) \<in> set batch
                        \<and> final ! i = Some (aiTransaction now aiResults
                                             (categoryNameToIdMap cats) (pts ! i, i)))"
    proof (intro allI impI)
      fix i assume i: "i < length pts"
      consider "applyRules (toLowerCase (description (pts ! i))) rules = (None, False)"
        | c where "applyRules (toLowerCase (description (pts ! i))) rules = (Some c, True)"
        using applyRules_shape by blast
      then show "case applyRules (toLowerCase (description (pts ! i))) rules of
                   (cid, True) \<Rightarrow> final ! i = Some (ruleTransaction now i (pts ! i) cid)
                 | (cid, False) \<Rightarrow>
                     (\<exists>call batch aiResults.
                        batchResults (fetch call) cats batch = Inr aiResults
                        \<and> (pts ! i, i) \<in> set batch
                        \<and> final ! i = Some (aiTransaction now aiResults
                                             (categoryNameToIdMap cats) (pts ! i, i)))"
      proof cases
        case 1
        then have "(pts ! i, i) \<in> set (snd rp)" using i ai by auto
        then have "i \<in> snd ` set (snd rp)" by force
        with hit obtain m aiResults t where t:
          "batchResults (fetch m) cats
             (take (getBatchSize stored) (drop (m * getBatchSize stored) (snd rp))) = Inr aiResults"
          "t \<in> set (take (getBatchSize stored) (drop (m * getBatchSize stored) (snd rp)))"
          "snd t = i"
          "final ! i = Some (aiTransaction now aiResults (categoryNameToIdMap cats) t)"
          by blast
        have "t \<in> set (snd rp)" using t(2) set_take_subset set_drop_subset by fast
        then have "t = (pts ! i, i)" using ai t(3) by auto
        then have "\<exists>call batch aiResults.
                        batchResults (fetch call) cats batch = Inr aiResults
                        \<and> (pts ! i, i) \<in> set batch
                        \<and> final ! i = Some (aiTransaction now aiResults
                                             (categoryNameToIdMap cats) (pts ! i, i))"
          using t by blast
        then show ?thesis using 1 by simp
      next
        case 2
        then have "i \<notin> snd ` set (snd rp)" using ai by auto
        then have "final ! i = fst rp ! i" using other by simp
        then show ?thesis using 2 slot [OF i] by simp
      qed
    qed
    show ?thesis using def run Inr len len0 each by simp
  qed
qed

section \<open>Recategorize path: what every slot holds\<close>

lemma rulePassRecat_length:
  "length (fst (rulePassRecat rules pts index final forAI)) = length final"
  by (induction pts arbitrary: index final forAI) (auto split: prod.splits bool.splits)

lemma rulePassRecat_other:
  "\<not> (index \<le> j \<and> j < index + length pts) \<Longrightarrow>
   fst (rulePassRecat rules pts index final forAI) ! j = final ! j"
  by (induction pts arbitrary: index final forAI) (auto split: prod.splits bool.splits)

lemma rulePassRecat_slot:
  "index + length pts \<le> length final \<Longrightarrow> k < length pts \<Longrightarrow>
   fst (rulePassRecat rules pts index final forAI) ! (index + k) =
     (case applyRules (toLowerCase (description (pts ! k))) rules of
        (cid, True) \<Rightarrow> Some ((pts ! k)\<lparr>categoryId := Some (orElse cid ''cat-uncategorized''),
                                     categorizedByRule := True, categorizedByAI := False\<rparr>)
      | (cid, False) \<Rightarrow> final ! (index + k))"
proof (induction pts arbitrary: index final forAI k)
  case Nil
  then show ?case by simp
next
  case (Cons pt pts)
  show ?case
  proof (cases k)
    case 0
    then show ?thesis using Cons.prems
      by (auto split: prod.splits bool.splits simp: rulePassRecat_other)
  next
    case (Suc k')
    have l: "Suc index + length pts \<le> length final" and k': "k' < length pts"
      using Cons.prems Suc by auto
    show ?thesis using Suc Cons.IH [of "Suc index" _ k'] l k'
      by (auto split: prod.splits bool.splits)
  qed
qed

lemma rulePassRecat_forAI:
  "set (snd (rulePassRecat rules pts index final forAI)) =
   set forAI \<union> {(pts ! k, index + k) | k. k < length pts \<and>
                   \<not> snd (applyRules (toLowerCase (description (pts ! k))) rules)}"
proof (induction pts arbitrary: index final forAI)
  case Nil
  then show ?case by simp
next
  case (Cons pt pts)
  have split: "\<And>P. {(((pt # pts) ! k), index + k) | k. k < length (pt # pts) \<and> P k} =
      (if P 0 then {(pt, index)} else {}) \<union> {(pts ! k, Suc index + k) | k. k < length pts \<and> P (Suc k)}"
  proof -
    fix P :: "nat \<Rightarrow> bool"
    show "{(((pt # pts) ! k), index + k) | k. k < length (pt # pts) \<and> P k} =
      (if P 0 then {(pt, index)} else {}) \<union> {(pts ! k, Suc index + k) | k. k < length pts \<and> P (Suc k)}"
      (is "?L = ?R")
    proof
      show "?L \<subseteq> ?R"
      proof
        fix x assume "x \<in> ?L"
        then obtain k where k: "x = ((pt # pts) ! k, index + k)" "k < length (pt # pts)" "P k" by auto
        show "x \<in> ?R"
        proof (cases k)
          case 0
          then show ?thesis using k by auto
        next
          case (Suc k')
          then have "x = (pts ! k', Suc index + k')" "k' < length pts" "P (Suc k')" using k by auto
          then show ?thesis by blast
        qed
      qed
      show "?R \<subseteq> ?L"
      proof
        fix x assume "x \<in> ?R"
        then consider "P 0" "x = (pt, index)"
          | k where "x = (pts ! k, Suc index + k)" "k < length pts" "P (Suc k)"
          by (auto split: if_splits)
        then show "x \<in> ?L"
        proof cases
          case 1
          then have "x = ((pt # pts) ! 0, index + 0) \<and> 0 < length (pt # pts) \<and> P 0" by simp
          then show ?thesis by blast
        next
          case 2
          then have "x = ((pt # pts) ! Suc k, index + Suc k) \<and> Suc k < length (pt # pts) \<and> P (Suc k)"
            by simp
          then show ?thesis by blast
        qed
      qed
    qed
  qed
  show ?case
    unfolding split [of "\<lambda>k. \<not> snd (applyRules (toLowerCase (description ((pt # pts) ! k))) rules)"]
    using Cons.IH [of "Suc index"]
    by (auto split: prod.splits bool.splits)
qed

lemma batchLoopRecat_slots:
  assumes bs: "0 < bs" and rng: "\<forall>t\<in>set xs. snd t < length final"
  shows "\<exists>r. batchLoopRecat fetch cats bs xs i call final = Some r \<and>
          (case r of
             Inl e \<Rightarrow> \<exists>m. i + m * bs < length xs \<and>
                      batchResultsRecat (fetch (call + m)) cats (take bs (drop (i + m * bs) xs)) = Inl e
           | Inr final' \<Rightarrow>
               length final' = length final
               \<and> (\<forall>j. j \<notin> snd ` set (drop i xs) \<longrightarrow> final' ! j = final ! j)
               \<and> (\<forall>j\<in>snd ` set (drop i xs). \<exists>m aiResults t.
                     batchResultsRecat (fetch (call + m)) cats (take bs (drop (i + m * bs) xs))
                       = Inr aiResults
                     \<and> t \<in> set (take bs (drop (i + m * bs) xs)) \<and> snd t = j
                     \<and> final' ! j = Some (aiUpdate aiResults (categoryNameToIdMap cats) t)))"
  using rng
proof (induction "length xs - i" arbitrary: i call final rule: less_induct)
  case less
  show ?case
  proof (cases "i < length xs")
    case False
    then show ?thesis by (simp add: batchLoopRecat.simps)
  next
    case True
    define batch where "batch = take bs (drop i xs)"
    show ?thesis
    proof (cases "batchResultsRecat (fetch call) cats batch")
      case (Inl e)
      then have stop: "batchLoopRecat fetch cats bs xs i call final = Some (Inl e)"
        using True by (subst batchLoopRecat.simps) (simp add: batch_def)
      have "i + 0 * bs < length xs \<and>
          batchResultsRecat (fetch (call + 0)) cats (take bs (drop (i + 0 * bs) xs)) = Inl e"
        using True Inl by (simp add: batch_def)
      then have "\<exists>m. i + m * bs < length xs \<and>
          batchResultsRecat (fetch (call + m)) cats (take bs (drop (i + m * bs) xs)) = Inl e"
        by (rule exI)
      then show ?thesis using stop by simp
    next
      case (Inr res)
      define final1 where "final1 = batchPassRecat res (categoryNameToIdMap cats) batch final"
      have len1: "length final1 = length final"
        by (simp add: final1_def batchPassRecat_def fold_update_length)
      have sub: "set batch \<subseteq> set xs"
        unfolding batch_def using set_take_subset set_drop_subset by fast
      have dec: "length xs - (i + bs) < length xs - i" using True bs by arith
      have rng1: "\<forall>t\<in>set xs. snd t < length final1" using less.prems len1 by simp
      have unfold: "batchLoopRecat fetch cats bs xs i call final
          = batchLoopRecat fetch cats bs xs (i + bs) (call + 1) final1"
        using True Inr by (subst batchLoopRecat.simps) (simp add: final1_def batch_def)
      have shift: "\<And>m. i + bs + m * bs = i + Suc m * bs" "\<And>m. call + 1 + m = call + Suc m"
        by simp_all
      from less.hyps [OF dec rng1, of "call + 1"]
      obtain r where run: "batchLoopRecat fetch cats bs xs (i + bs) (call + 1) final1 = Some r"
        and r: "case r of
             Inl e \<Rightarrow> \<exists>m. i + bs + m * bs < length xs \<and>
                      batchResultsRecat (fetch (call + 1 + m)) cats (take bs (drop (i + bs + m * bs) xs))
                        = Inl e
           | Inr final' \<Rightarrow>
               length final' = length final1
               \<and> (\<forall>j. j \<notin> snd ` set (drop (i + bs) xs) \<longrightarrow> final' ! j = final1 ! j)
               \<and> (\<forall>j\<in>snd ` set (drop (i + bs) xs). \<exists>m aiResults t.
                     batchResultsRecat (fetch (call + 1 + m)) cats (take bs (drop (i + bs + m * bs) xs))
                       = Inr aiResults
                     \<and> t \<in> set (take bs (drop (i + bs + m * bs) xs)) \<and> snd t = j
                     \<and> final' ! j = Some (aiUpdate aiResults (categoryNameToIdMap cats) t))"
        by blast
      show ?thesis
      proof (cases r)
        case (Inl e)
        with r obtain m where "i + Suc m * bs < length xs \<and>
            batchResultsRecat (fetch (call + Suc m)) cats (take bs (drop (i + Suc m * bs) xs)) = Inl e"
          unfolding shift by auto
        then have "\<exists>m. i + m * bs < length xs \<and>
            batchResultsRecat (fetch (call + m)) cats (take bs (drop (i + m * bs) xs)) = Inl e"
          by blast
        then show ?thesis using unfold run Inl by simp
      next
        case (Inr final')
        with r have len': "length final' = length final1"
          and other': "\<forall>j. j \<notin> snd ` set (drop (i + bs) xs) \<longrightarrow> final' ! j = final1 ! j"
          and hit': "\<forall>j\<in>snd ` set (drop (i + bs) xs). \<exists>m aiResults t.
                     batchResultsRecat (fetch (call + Suc m)) cats (take bs (drop (i + Suc m * bs) xs))
                       = Inr aiResults
                     \<and> t \<in> set (take bs (drop (i + Suc m * bs) xs)) \<and> snd t = j
                     \<and> final' ! j = Some (aiUpdate aiResults (categoryNameToIdMap cats) t)"
          unfolding shift by simp_all
        have parts: "set (drop i xs) = set batch \<union> set (drop (i + bs) xs)"
          using drop_batch_split [of i xs bs] by (metis batch_def set_append)
        have other: "\<forall>j. j \<notin> snd ` set (drop i xs) \<longrightarrow> final' ! j = final ! j"
        proof (intro allI impI)
          fix j assume j: "j \<notin> snd ` set (drop i xs)"
          then have "j \<notin> snd ` set batch" "j \<notin> snd ` set (drop (i + bs) xs)"
            using parts by auto
          then show "final' ! j = final ! j"
            using other' by (simp add: final1_def batchPassRecat_def fold_update_other)
        qed
        have hit: "\<forall>j\<in>snd ` set (drop i xs). \<exists>m aiResults t.
                     batchResultsRecat (fetch (call + m)) cats (take bs (drop (i + m * bs) xs))
                       = Inr aiResults
                     \<and> t \<in> set (take bs (drop (i + m * bs) xs)) \<and> snd t = j
                     \<and> final' ! j = Some (aiUpdate aiResults (categoryNameToIdMap cats) t)"
        proof
          fix j assume j: "j \<in> snd ` set (drop i xs)"
          show "\<exists>m aiResults t.
                     batchResultsRecat (fetch (call + m)) cats (take bs (drop (i + m * bs) xs))
                       = Inr aiResults
                     \<and> t \<in> set (take bs (drop (i + m * bs) xs)) \<and> snd t = j
                     \<and> final' ! j = Some (aiUpdate aiResults (categoryNameToIdMap cats) t)"
          proof (cases "j \<in> snd ` set (drop (i + bs) xs)")
            case True
            then show ?thesis using hit' by blast
          next
            case False
            then have jb: "j \<in> snd ` set batch" using j parts by auto
            then have "j < length final" using sub less.prems by auto
            from fold_update_hit [OF jb this, of "aiUpdate res (categoryNameToIdMap cats)"]
            obtain t where t: "t \<in> set batch" "snd t = j"
              "final1 ! j = Some (aiUpdate res (categoryNameToIdMap cats) t)"
              by (auto simp: final1_def batchPassRecat_def)
            have "final' ! j = final1 ! j" using other' False by simp
            then have "batchResultsRecat (fetch (call + 0)) cats (take bs (drop (i + 0 * bs) xs)) = Inr res
                \<and> t \<in> set (take bs (drop (i + 0 * bs) xs)) \<and> snd t = j
                \<and> final' ! j = Some (aiUpdate res (categoryNameToIdMap cats) t)"
              using t \<open>batchResultsRecat (fetch call) cats batch = Inr res\<close> by (simp add: batch_def)
            then show ?thesis by blast
          qed
        qed
        show ?thesis using unfold run Inr len' len1 other hit by simp
      qed
    qed
  qed
qed

lemma fillUntouched_nth:
  "length updated = length txs \<Longrightarrow> i < length txs \<Longrightarrow>
   fillUntouched txs updated ! i = (case updated ! i of None \<Rightarrow> txs ! i | Some v \<Rightarrow> v)"
  by (simp add: fillUntouched_def)

lemma recategorize_slots:
  "\<exists>r. recategorizeUncategorizedTransactions fetch stored txs rules cats = Some r \<and>
     (case r of
        Inl e \<Rightarrow> \<exists>call batch. batchResultsRecat (fetch call) cats batch = Inl e
      | Inr out \<Rightarrow>
          length out = length txs
          \<and> (\<forall>i<length txs.
                 case applyRules (toLowerCase (description (txs ! i))) rules of
                   (cid, True) \<Rightarrow>
                     out ! i = (txs ! i)\<lparr>categoryId := Some (orElse cid ''cat-uncategorized''),
                                          categorizedByRule := True, categorizedByAI := False\<rparr>
                 | (cid, False) \<Rightarrow>
                     (\<exists>call batch aiResults.
                        batchResultsRecat (fetch call) cats batch = Inr aiResults
                        \<and> (txs ! i, i) \<in> set batch
                        \<and> out ! i = aiUpdate aiResults (categoryNameToIdMap cats) (txs ! i, i))))"
proof -
  define init where "init = replicate (length txs) (None :: Transaction option)"
  define rp where "rp = rulePassRecat rules txs 0 init []"
  have len0: "length (fst rp) = length txs"
    by (simp add: rp_def init_def rulePassRecat_length)
  have ai: "set (snd rp) = {(txs ! k, k) | k. k < length txs \<and>
                   \<not> snd (applyRules (toLowerCase (description (txs ! k))) rules)}"
    using rulePassRecat_forAI [of rules txs 0 init "[]"] by (simp add: rp_def)
  have slot: "\<And>k. k < length txs \<Longrightarrow> fst rp ! k =
     (case applyRules (toLowerCase (description (txs ! k))) rules of
        (cid, True) \<Rightarrow> Some ((txs ! k)\<lparr>categoryId := Some (orElse cid ''cat-uncategorized''),
                                     categorizedByRule := True, categorizedByAI := False\<rparr>)
      | (cid, False) \<Rightarrow> None)"
    using rulePassRecat_slot [of 0 txs init _ rules "[]"] by (simp add: rp_def init_def)
  have rng: "\<forall>t\<in>set (snd rp). snd t < length (fst rp)"
    using ai len0 by auto
  have def: "recategorizeUncategorizedTransactions fetch stored txs rules cats
      = map_option (map_sum id (fillUntouched txs))
          (batchLoopRecat fetch cats (getBatchSize stored) (snd rp) 0 0 (fst rp))"
    by (auto simp: recategorizeUncategorizedTransactions_def rp_def init_def split: prod.splits)
  from batchLoopRecat_slots [OF getBatchSize_pos rng, where fetch = fetch and cats = cats
      and i = 0 and call = 0 and stored1 = stored]
  obtain r where run: "batchLoopRecat fetch cats (getBatchSize stored) (snd rp) 0 0 (fst rp) = Some r"
    and r: "case r of
             Inl e \<Rightarrow> \<exists>m. 0 + m * getBatchSize stored < length (snd rp) \<and>
                      batchResultsRecat (fetch (0 + m)) cats
                        (take (getBatchSize stored) (drop (0 + m * getBatchSize stored) (snd rp)))
                        = Inl e
           | Inr final' \<Rightarrow>
               length final' = length (fst rp)
               \<and> (\<forall>j. j \<notin> snd ` set (drop 0 (snd rp)) \<longrightarrow> final' ! j = fst rp ! j)
               \<and> (\<forall>j\<in>snd ` set (drop 0 (snd rp)). \<exists>m aiResults t.
                     batchResultsRecat (fetch (0 + m)) cats
                       (take (getBatchSize stored) (drop (0 + m * getBatchSize stored) (snd rp)))
                       = Inr aiResults
                     \<and> t \<in> set (take (getBatchSize stored)
                                  (drop (0 + m * getBatchSize stored) (snd rp)))
                     \<and> snd t = j
                     \<and> final' ! j = Some (aiUpdate aiResults (categoryNameToIdMap cats) t))"
    by blast
  show ?thesis
  proof (cases r)
    case (Inl e)
    with r have "\<exists>call batch. batchResultsRecat (fetch call) cats batch = Inl e" by auto
    then show ?thesis using def run Inl by simp
  next
    case (Inr upd)
    with r have len: "length upd = length (fst rp)"
      and other: "\<forall>j. j \<notin> snd ` set (snd rp) \<longrightarrow> upd ! j = fst rp ! j"
      and hit: "\<forall>j\<in>snd ` set (snd rp). \<exists>m aiResults t.
                     batchResultsRecat (fetch m) cats
                       (take (getBatchSize stored) (drop (m * getBatchSize stored) (snd rp)))
                       = Inr aiResults
                     \<and> t \<in> set (take (getBatchSize stored) (drop (m * getBatchSize stored) (snd rp)))
                     \<and> snd t = j
                     \<and> upd ! j = Some (aiUpdate aiResults (categoryNameToIdMap cats) t)"
      by simp_all
    have lenu: "length upd = length txs" using len len0 by simp
    have leno: "length (fillUntouched txs upd) = length txs"
      using lenu by (simp add: fillUntouched_def)
    have each: "\<forall>i<length txs.
                 case applyRules (toLowerCase (description (txs ! i))) rules of
                   (cid, True) \<Rightarrow>
                     fillUntouched txs upd ! i =
                       (txs ! i)\<lparr>categoryId := Some (orElse cid ''cat-uncategorized''),
                                 categorizedByRule := True, categorizedByAI := False\<rparr>
                 | (cid, False) \<Rightarrow>
                     (\<exists>call batch aiResults.
                        batchResultsRecat (fetch call) cats batch = Inr aiResults
                        \<and> (txs ! i, i) \<in> set batch
                        \<and> fillUntouched txs upd ! i =
                            aiUpdate aiResults (categoryNameToIdMap cats) (txs ! i, i))"
    proof (intro allI impI)
      fix i assume i: "i < length txs"
      note nth = fillUntouched_nth [OF lenu i]
      consider "applyRules (toLowerCase (description (txs ! i))) rules = (None, False)"
        | c where "applyRules (toLowerCase (description (txs ! i))) rules = (Some c, True)"
        using applyRules_shape by blast
      then show "case applyRules (toLowerCase (description (txs ! i))) rules of
                   (cid, True) \<Rightarrow>
                     fillUntouched txs upd ! i =
                       (txs ! i)\<lparr>categoryId := Some (orElse cid ''cat-uncategorized''),
                                 categorizedByRule := True, categorizedByAI := False\<rparr>
                 | (cid, False) \<Rightarrow>
                     (\<exists>call batch aiResults.
                        batchResultsRecat (fetch call) cats batch = Inr aiResults
                        \<and> (txs ! i, i) \<in> set batch
                        \<and> fillUntouched txs upd ! i =
                            aiUpdate aiResults (categoryNameToIdMap cats) (txs ! i, i))"
      proof cases
        case 1
        then have "(txs ! i, i) \<in> set (snd rp)" using i ai by auto
        then have "i \<in> snd ` set (snd rp)" by force
        with hit obtain m aiResults t where t:
          "batchResultsRecat (fetch m) cats
             (take (getBatchSize stored) (drop (m * getBatchSize stored) (snd rp))) = Inr aiResults"
          "t \<in> set (take (getBatchSize stored) (drop (m * getBatchSize stored) (snd rp)))"
          "snd t = i"
          "upd ! i = Some (aiUpdate aiResults (categoryNameToIdMap cats) t)"
          by blast
        have "t \<in> set (snd rp)" using t(2) set_take_subset set_drop_subset by fast
        then have eq: "t = (txs ! i, i)" using ai t(3) by auto
        have own: "(txs ! i, i) \<in> set (take (getBatchSize stored)
            (drop (m * getBatchSize stored) (snd rp)))"
          using t(2) eq by simp
        have "fillUntouched txs upd ! i = aiUpdate aiResults (categoryNameToIdMap cats) (txs ! i, i)"
          using nth t(4) eq by simp
        with t(1) own have "\<exists>call batch aiResults.
                        batchResultsRecat (fetch call) cats batch = Inr aiResults
                        \<and> (txs ! i, i) \<in> set batch
                        \<and> fillUntouched txs upd ! i =
                            aiUpdate aiResults (categoryNameToIdMap cats) (txs ! i, i)"
          by blast
        then show ?thesis using 1 by simp
      next
        case 2
        then have "i \<notin> snd ` set (snd rp)" using ai by auto
        then have "upd ! i = fst rp ! i" using other by simp
        then show ?thesis using 2 slot [OF i] nth by simp
      qed
    qed
    show ?thesis using def run Inr leno each by simp
  qed
qed

section \<open>Evaluation of concrete inputs\<close>

lemmas example_eval = R1_def R2_def R3_def exInflow_def exCategories_def exParsed_def exLedger_def
  fetchNothing_def fetchDown_def fetchSecondRejected_def fetchSentinel_def fetchMalformed_def exAnswer_def fetchStray_def
  fetchNullEntry_def exBatch_def clock_def body_def entry_def

lemmas client_eval = getCategoryBatchFromAIService_def resultsOf_def getField_def isNullish_def

lemmas pipeline_eval = ruleMatch_def getBatchSize_def DEFAULT_AI_BATCH_SIZE_def
  categoryNameToIdMap_def aiOrIncome_def ruleTransaction_def aiTransaction_def batchPass_def
  batchResults_def aiUpdate_def batchPassRecat_def batchResultsRecat_def fillUntouched_def
  showInt_def showNat.simps digitChar_def

section \<open>Identity of recategorized transactions\<close>

lemma aiUpdate_frame:
  "id_tx (aiUpdate res nm (tx, i)) = id_tx tx \<and> date (aiUpdate res nm (tx, i)) = date tx
   \<and> rawDate (aiUpdate res nm (tx, i)) = rawDate tx
   \<and> amount (aiUpdate res nm (tx, i)) = amount tx
   \<and> description (aiUpdate res nm (tx, i)) = description tx
   \<and> \<not> categorizedByRule (aiUpdate res nm (tx, i))"
  by (simp add: aiUpdate_def split: prod.splits)

text \<open>
  C8. For every input list of uncategorized transactions the recategorize path comes to
  an end: it throws what a call of the service threw, or it returns a list of the same
  length as the input in which the transaction at each position has the \<open>id\<close>, \<open>date\<close>,
  \<open>amount\<close> and \<open>description\<close> (and the raw date) of the input transaction at that
  position: only the category and the two provenance flags may differ.
\<close>

theorem recategorize_keeps_identity:
  "\<exists>r. recategorizeUncategorizedTransactions fetch stored uncategorized rules categories = Some r
     \<and> (case r of
          Inl e \<Rightarrow> \<exists>call batch. getCategoryBatchFromAIService (fetch call) batch categories = Inl e
        | Inr out \<Rightarrow>
            length out = length uncategorized
            \<and> (\<forall>i<length uncategorized.
                  id_tx (out ! i) = id_tx (uncategorized ! i)
                  \<and> date (out ! i) = date (uncategorized ! i)
                  \<and> amount (out ! i) = amount (uncategorized ! i)
                  \<and> description (out ! i) = description (uncategorized ! i)
                  \<and> rawDate (out ! i) = rawDate (uncategorized ! i)))"
proof -
  from recategorize_slots [of fetch stored uncategorized rules categories]
  obtain r where run: "recategorizeUncategorizedTransactions fetch stored uncategorized rules categories = Some r"
    and r: "case r of
        Inl e \<Rightarrow> \<exists>call batch. batchResultsRecat (fetch call) categories batch = Inl e
      | Inr out \<Rightarrow>
          length out = length uncategorized
          \<and> (\<forall>i<length uncategorized.
                 case applyRules (toLowerCase (description (uncategorized ! i))) rules of
                   (cid, True) \<Rightarrow>
                     out ! i = (uncategorized ! i)\<lparr>categoryId := Some (orElse cid ''cat-uncategorized''),
                                          categorizedByRule := True, categorizedByAI := False\<rparr>
                 | (cid, False) \<Rightarrow>
                     (\<exists>call batch aiResults.
                        batchResultsRecat (fetch call) categories batch = Inr aiResults
                        \<and> (uncategorized ! i, i) \<in> set batch
                        \<and> out ! i = aiUpdate aiResults (categoryNameToIdMap categories)
                                      (uncategorized ! i, i)))"
    by blast
  show ?thesis
  proof (cases r)
    case (Inl e)
    with r obtain call batch where "batchResultsRecat (fetch call) categories batch = Inl e"
      by auto
    then have "\<exists>call batch. getCategoryBatchFromAIService (fetch call) batch categories = Inl e"
      unfolding batchResultsRecat_def by blast
    then show ?thesis using run Inl by simp
  next
    case (Inr out)
    with r have len: "length out = length uncategorized"
      and each: "\<forall>i<length uncategorized.
                 case applyRules (toLowerCase (description (uncategorized ! i))) rules of
                   (cid, True) \<Rightarrow>
                     out ! i = (uncategorized ! i)\<lparr>categoryId := Some (orElse cid ''cat-uncategorized''),
                                          categorizedByRule := True, categorizedByAI := False\<rparr>
                 | (cid, False) \<Rightarrow>
                     (\<exists>call batch aiResults.
                        batchResultsRecat (fetch call) categories batch = Inr aiResults
                        \<and> (uncategorized ! i, i) \<in> set batch
                        \<and> out ! i = aiUpdate aiResults (categoryNameToIdMap categories)
                                      (uncategorized ! i, i))"
      by simp_all
    have "\<forall>i<length uncategorized.
           id_tx (out ! i) = id_tx (uncategorized ! i)
           \<and> date (out ! i) = date (uncategorized ! i)
           \<and> amount (out ! i) = amount (uncategorized ! i)
           \<and> description (out ! i) = description (uncategorized ! i)
           \<and> rawDate (out ! i) = rawDate (uncategorized ! i)"
    proof (intro allI impI)
      fix i assume i: "i < length uncategorized"
      consider (rule) c where "applyRules (toLowerCase (description (uncategorized ! i))) rules = (Some c, True)"
        | (ai) "applyRules (toLowerCase (description (uncategorized ! i))) rules = (None, False)"
        using applyRules_shape by blast
      then show "id_tx (out ! i) = id_tx (uncategorized ! i)
           \<and> date (out ! i) = date (uncategorized ! i)
           \<and> amount (out ! i) = amount (uncategorized ! i)
           \<and> description (out ! i) = description (uncategorized ! i)
           \<and> rawDate (out ! i) = rawDate (uncategorized ! i)"
      proof cases
        case rule
        with each i have "out ! i = (uncategorized ! i)\<lparr>categoryId := Some (orElse (Some c) ''cat-uncategorized''),
                                          categorizedByRule := True, categorizedByAI := False\<rparr>"
          by fastforce
        then show ?thesis by simp
      next
        case ai
        with each i obtain aiResults where "out ! i =
                        aiUpdate aiResults (categoryNameToIdMap categories) (uncategorized ! i, i)"
          by fastforce
        then show ?thesis by (simp add: aiUpdate_frame)
      qed
    qed
    with run len Inr show ?thesis by simp
  qed
qed

text \<open>
  A run of two transactions in one batch that the service leaves unanswered, and the
  same input in batches of one when the second call is rejected.
\<close>

theorem recategorize_keeps_identity_witness:
  "recategorizeUncategorizedTransactions fetchNothing None exLedger [R1] exCategories =
     Some (Inr [(exLedger ! 0)\<lparr>categoryId := Some ''cat-income'', categorizedByRule := False,
                                categorizedByAI := False\<rparr>,
                (exLedger ! 1)\<lparr>categoryId := Some ''cat-uncategorized'', categorizedByRule := False,
                                categorizedByAI := False\<rparr>])
   \<and> recategorizeUncategorizedTransactions fetchSecondRejected (Some 1) exLedger [R1] exCategories =
       Some (Inl FetchRejected)
   \<and> (\<exists>call batch. getCategoryBatchFromAIService (fetchSecondRejected call) batch exCategories
         = Inl FetchRejected)
   \<and> (1::nat) < length exLedger"
proof -
  have run: "recategorizeUncategorizedTransactions fetchNothing None exLedger [R1] exCategories =
     Some (Inr [(exLedger ! 0)\<lparr>categoryId := Some ''cat-income'', categorizedByRule := False,
                                categorizedByAI := False\<rparr>,
                (exLedger ! 1)\<lparr>categoryId := Some ''cat-uncategorized'', categorizedByRule := False,
                                categorizedByAI := False\<rparr>])"
    by (simp add: recategorizeUncategorizedTransactions_def batchLoopRecat.simps
        example_eval client_eval pipeline_eval string_eval)
  have thrown: "recategorizeUncategorizedTransactions fetchSecondRejected (Some 1) exLedger [R1]
      exCategories = Some (Inl FetchRejected)"
    by (simp add: recategorizeUncategorizedTransactions_def batchLoopRecat.simps
        example_eval client_eval pipeline_eval string_eval)
  from recategorize_keeps_identity [of fetchNothing None exLedger "[R1]" exCategories]
    recategorize_keeps_identity [of fetchSecondRejected "Some 1" exLedger "[R1]" exCategories]
    run thrown
  show ?thesis by (simp add: exLedger_def)
qed

section \<open>Provenance flags\<close>

lemma applyRuleLoop_eq:
  "applyRuleLoop rule ts acc n =
     (acc @ map (\<lambda>t. t\<lparr>categoryId := Some (categoryId_rule rule),
                          categorizedByRule := True, categorizedByAI := False\<rparr>)
              (filter (\<lambda>t. applyRuleMatches rule (description t)
                            \<and> categoryId t \<noteq> Some (categoryId_rule rule)) ts),
      n + length (filter (\<lambda>t. applyRuleMatches rule (description t)
                            \<and> categoryId t \<noteq> Some (categoryId_rule rule)) ts))"
  by (induction ts arbitrary: acc n) simp_all

lemma applyRuleLoop_flags:
  "\<forall>t\<in>set acc. categorizedByRule t \<and> \<not> categorizedByAI t \<Longrightarrow>
   \<forall>t\<in>set (fst (applyRuleLoop rule ts acc n)). categorizedByRule t \<and> \<not> categorizedByAI t"
  by (auto simp: applyRuleLoop_eq)

lemma categorize_flags:
  "\<exists>r. categorizeTransactions fetch now stored pts rules cats = Some r
     \<and> (case r of
          Inl e \<Rightarrow> \<exists>call batch. getCategoryBatchFromAIService (fetch call) batch cats = Inl e
        | Inr final \<Rightarrow> \<forall>slot\<in>set final. \<exists>t. slot = Some t \<and> flagsOk t)"
proof -
  from categorizeTransactions_slots [of fetch now stored pts rules cats]
  obtain r where run: "categorizeTransactions fetch now stored pts rules cats = Some r"
    and r: "case r of
        Inl e \<Rightarrow> \<exists>call batch. batchResults (fetch call) cats batch = Inl e
      | Inr final \<Rightarrow>
          length final = length pts
          \<and> (\<forall>i<length pts.
                 case applyRules (toLowerCase (description (pts ! i))) rules of
                   (cid, True) \<Rightarrow> final ! i = Some (ruleTransaction now i (pts ! i) cid)
                 | (cid, False) \<Rightarrow>
                     (\<exists>call batch aiResults.
                        batchResults (fetch call) cats batch = Inr aiResults
                        \<and> (pts ! i, i) \<in> set batch
                        \<and> final ! i = Some (aiTransaction now aiResults
                                             (categoryNameToIdMap cats) (pts ! i, i))))"
    by blast
  show ?thesis
  proof (cases r)
    case (Inl e)
    with r obtain call batch where "batchResults (fetch call) cats batch = Inl e" by auto
    then have "\<exists>call batch. getCategoryBatchFromAIService (fetch call) batch cats = Inl e"
      unfolding batchResults_def by blast
    then show ?thesis using run Inl by simp
  next
    case (Inr final)
    with r have len: "length final = length pts"
      and each: "\<forall>i<length pts.
                 case applyRules (toLowerCase (description (pts ! i))) rules of
                   (cid, True) \<Rightarrow> final ! i = Some (ruleTransaction now i (pts ! i) cid)
                 | (cid, False) \<Rightarrow>
                     (\<exists>call batch aiResults.
                        batchResults (fetch call) cats batch = Inr aiResults
                        \<and> (pts ! i, i) \<in> set batch
                        \<and> final ! i = Some (aiTransaction now aiResults
                                             (categoryNameToIdMap cats) (pts ! i, i)))"
      by simp_all
    have "\<forall>slot\<in>set final. \<exists>t. slot = Some t \<and> flagsOk t"
    proof
      fix slot assume "slot \<in> set final"
      then obtain i where i: "i < length pts" and slot: "slot = final ! i"
        using len by (metis in_set_conv_nth)
      consider (rule) c where "applyRules (toLowerCase (description (pts ! i))) rules = (Some c, True)"
        | (ai) "applyRules (toLowerCase (description (pts ! i))) rules = (None, False)"
        using applyRules_shape by blast
      then show "\<exists>t. slot = Some t \<and> flagsOk t"
      proof cases
        case rule
        with each i have "final ! i = Some (ruleTransaction now i (pts ! i) (Some c))"
          by fastforce
        then show ?thesis using slot by (simp add: flagsOk_def ruleTransaction_def)
      next
        case ai
        with each i obtain aiResults where "final ! i =
            Some (aiTransaction now aiResults (categoryNameToIdMap cats) (pts ! i, i))"
          by fastforce
        then show ?thesis using slot
          by (simp add: flagsOk_def aiTransaction_def split: prod.splits)
      qed
    qed
    with run Inr show ?thesis by simp
  qed
qed

lemma recategorize_flags:
  "\<exists>r. recategorizeUncategorizedTransactions fetch stored txs rules cats = Some r
     \<and> (case r of
          Inl e \<Rightarrow> \<exists>call batch. getCategoryBatchFromAIService (fetch call) batch cats = Inl e
        | Inr out \<Rightarrow> \<forall>t\<in>set out. flagsOk t)"
proof -
  from recategorize_slots [of fetch stored txs rules cats]
  obtain r where run: "recategorizeUncategorizedTransactions fetch stored txs rules cats = Some r"
    and r: "case r of
        Inl e \<Rightarrow> \<exists>call batch. batchResultsRecat (fetch call) cats batch = Inl e
      | Inr out \<Rightarrow>
          length out = length txs
          \<and> (\<forall>i<length txs.
                 case applyRules (toLowerCase (description (txs ! i))) rules of
                   (cid, True) \<Rightarrow>
                     out ! i = (txs ! i)\<lparr>categoryId := Some (orElse cid ''cat-uncategorized''),
                                          categorizedByRule := True, categorizedByAI := False\<rparr>
                 | (cid, False) \<Rightarrow>
                     (\<exists>call batch aiResults.
                        batchResultsRecat (fetch call) cats batch = Inr aiResults
                        \<and> (txs ! i, i) \<in> set batch
                        \<and> out ! i = aiUpdate aiResults (categoryNameToIdMap cats) (txs ! i, i)))"
    by blast
  show ?thesis
  proof (cases r)
    case (Inl e)
    with r obtain call batch where "batchResultsRecat (fetch call) cats batch = Inl e" by auto
    then have "\<exists>call batch. getCategoryBatchFromAIService (fetch call) batch cats = Inl e"
      unfolding batchResultsRecat_def by blast
    then show ?thesis using run Inl by simp
  next
    case (Inr out)
    with r have len: "length out = length txs"
      and each: "\<forall>i<length txs.
                 case applyRules (toLowerCase (description (txs ! i))) rules of
                   (cid, True) \<Rightarrow>
                     out ! i = (txs ! i)\<lparr>categoryId := Some (orElse cid ''cat-uncategorized''),
                                          categorizedByRule := True, categorizedByAI := False\<rparr>
                 | (cid, False) \<Rightarrow>
                     (\<exists>call batch aiResults.
                        batchResultsRecat (fetch call) cats batch = Inr aiResults
                        \<and> (txs ! i, i) \<in> set batch
                        \<and> out ! i = aiUpdate aiResults (categoryNameToIdMap cats) (txs ! i, i))"
      by simp_all
    have "\<forall>t\<in>set out. flagsOk t"
    proof
      fix t assume "t \<in> set out"
      then obtain i where i: "i < length txs" and t: "t = out ! i"
        using len by (metis in_set_conv_nth)
      consider (rule) c where "applyRules (toLowerCase (description (txs ! i))) rules = (Some c, True)"
        | (ai) "applyRules (toLowerCase (description (txs ! i))) rules = (None, False)"
        using applyRules_shape by blast
      then show "flagsOk t"
      proof cases
        case rule
        with each i have "out ! i = (txs ! i)\<lparr>categoryId := Some (orElse (Some c) ''cat-uncategorized''),
                                          categorizedByRule := True, categorizedByAI := False\<rparr>"
          by fastforce
        then show ?thesis using t by (simp add: flagsOk_def)
      next
        case ai
        with each i obtain aiResults where "out ! i =
            aiUpdate aiResults (categoryNameToIdMap cats) (txs ! i, i)"
          by fastforce
        then show ?thesis using t by (simp add: flagsOk_def aiUpdate_frame)
      qed
    qed
    with run Inr show ?thesis by simp
  qed
qed

text \<open>
  C9. Every transaction that the import categorization, the recategorization, the
  application of a rule to the ledger or a manual category edit produces or rewrites
  has at most one of \<open>categorizedByRule\<close> and \<open>categorizedByAI\<close> set, whatever the flags
  of the input were; a manual edit (on the upload page and on the transactions page)
  clears both and leaves every other transaction as it was. The two categorizations
  come to an end: they throw what a call of the service threw and produce nothing, or
  they return a list in which every slot is filled and has the property.
\<close>

theorem provenance_flags_exclusive:
  "(\<exists>r. categorizeTransactions fetch now stored pts rules cats = Some r
      \<and> (case r of
           Inl e \<Rightarrow> \<exists>call batch. getCategoryBatchFromAIService (fetch call) batch cats = Inl e
         | Inr final \<Rightarrow> \<forall>slot\<in>set final. \<exists>t. slot = Some t \<and> flagsOk t))
   \<and> (\<exists>r. recategorizeUncategorizedTransactions fetch stored txs rules cats = Some r
      \<and> (case r of
           Inl e \<Rightarrow> \<exists>call batch. getCategoryBatchFromAIService (fetch call) batch cats = Inl e
         | Inr out \<Rightarrow> \<forall>t\<in>set out. flagsOk t))
   \<and> (\<forall>t\<in>set (fst (applyRule rule txs)). flagsOk t)
   \<and> (\<forall>i<length txs.
         (id_tx (txs ! i) = tid \<longrightarrow>
            \<not> categorizedByRule (handleCategoryChange tid new txs ! i)
            \<and> \<not> categorizedByAI (handleCategoryChange tid new txs ! i))
         \<and> (id_tx (txs ! i) \<noteq> tid \<longrightarrow> handleCategoryChange tid new txs ! i = txs ! i))
   \<and> (\<forall>t. handleCategoryChangePage tid new txs = Some t \<longrightarrow>
         \<not> categorizedByRule t \<and> \<not> categorizedByAI t)"
proof -
  have "\<forall>t\<in>set (fst (applyRule rule txs)). categorizedByRule t \<and> \<not> categorizedByAI t"
    unfolding applyRule_def by (rule applyRuleLoop_flags) simp
  then have a: "\<forall>t\<in>set (fst (applyRule rule txs)). flagsOk t"
    by (simp add: flagsOk_def)
  have b: "\<forall>i<length txs.
         (id_tx (txs ! i) = tid \<longrightarrow>
            \<not> categorizedByRule (handleCategoryChange tid new txs ! i)
            \<and> \<not> categorizedByAI (handleCategoryChange tid new txs ! i))
         \<and> (id_tx (txs ! i) \<noteq> tid \<longrightarrow> handleCategoryChange tid new txs ! i = txs ! i)"
    by (simp add: handleCategoryChange_def manualEdit_def)
  have c: "\<forall>t. handleCategoryChangePage tid new txs = Some t \<longrightarrow>
         \<not> categorizedByRule t \<and> \<not> categorizedByAI t"
    by (auto simp: handleCategoryChangePage_def manualEdit_def)
  show ?thesis
    using categorize_flags [of fetch now stored pts rules cats]
      recategorize_flags [of fetch stored txs rules cats] a b c
    by (intro conjI)
qed

theorem provenance_flags_exclusive_witness:
  "categorizeTransactions fetchNothing clock None exParsed [R1] exCategories =
     Some (Inr [Some (ruleTransaction clock 0 (exParsed ! 0) (Some ''catA'')),
                Some \<lparr>date = ''2024-02-01T00:00:00.000Z'', rawDate = ''01/02/2024'',
                      description = ''SALARY PTY LTD'', amount = 50,
                      id_tx = ''txn-1000-1'', categoryId = Some ''cat-income'',
                      categorizedByRule = False, categorizedByAI = False\<rparr>,
                Some \<lparr>date = ''2024-02-02T00:00:00.000Z'', rawDate = ''02/02/2024'',
                      description = ''WOOLWORTHS 123'', amount = - 50,
                      id_tx = ''txn-1000-2'', categoryId = Some ''cat-uncategorized'',
                      categorizedByRule = False, categorizedByAI = False\<rparr>])
   \<and> (\<exists>out. recategorizeUncategorizedTransactions fetchNothing None exLedger [R1] exCategories
         = Some (Inr out) \<and> list_all flagsOk out \<and> length out = 2)
   \<and> \<not> flagsOk (exLedger ! 0)
   \<and> fst (applyRule R3 exLedger) =
       [(exLedger ! 0)\<lparr>categoryId := Some ''cat-income'', categorizedByRule := True,
                          categorizedByAI := False\<rparr>]
   \<and> list_all flagsOk (fst (applyRule R3 exLedger))
   \<and> flagsOk (handleCategoryChange ''txn-1000-0'' ''cat-income'' exLedger ! 0)
   \<and> handleCategoryChangePage ''txn-1000-0'' ''cat-income'' exLedger =
       Some ((exLedger ! 0)\<lparr>categoryId := Some ''cat-income'', categorizedByRule := False,
                             categorizedByAI := False\<rparr>)"
proof -
  have imp: "categorizeTransactions fetchNothing clock None exParsed [R1] exCategories =
     Some (Inr [Some (ruleTransaction clock 0 (exParsed ! 0) (Some ''catA'')),
                Some \<lparr>date = ''2024-02-01T00:00:00.000Z'', rawDate = ''01/02/2024'',
                      description = ''SALARY PTY LTD'', amount = 50,
                      id_tx = ''txn-1000-1'', categoryId = Some ''cat-income'',
                      categorizedByRule = False, categorizedByAI = False\<rparr>,
                Some \<lparr>date = ''2024-02-02T00:00:00.000Z'', rawDate = ''02/02/2024'',
                      description = ''WOOLWORTHS 123'', amount = - 50,
                      id_tx = ''txn-1000-2'', categoryId = Some ''cat-uncategorized'',
                      categorizedByRule = False, categorizedByAI = False\<rparr>])"
    by (simp add: categorizeTransactions_def batchLoop.simps
        example_eval client_eval pipeline_eval string_eval)
  have rec: "recategorizeUncategorizedTransactions fetchNothing None exLedger [R1] exCategories =
     Some (Inr [(exLedger ! 0)\<lparr>categoryId := Some ''cat-income'', categorizedByRule := False,
                                categorizedByAI := False\<rparr>,
                (exLedger ! 1)\<lparr>categoryId := Some ''cat-uncategorized'', categorizedByRule := False,
                                categorizedByAI := False\<rparr>])"
    by (simp add: recategorizeUncategorizedTransactions_def batchLoopRecat.simps
        example_eval client_eval pipeline_eval string_eval)
  have page: "handleCategoryChangePage ''txn-1000-0'' ''cat-income'' exLedger =
       Some ((exLedger ! 0)\<lparr>categoryId := Some ''cat-income'', categorizedByRule := False,
                             categorizedByAI := False\<rparr>)"
    by (simp add: handleCategoryChangePage_def manualEdit_def exLedger_def)
  have rule: "fst (applyRule R3 exLedger) =
       [(exLedger ! 0)\<lparr>categoryId := Some ''cat-income'', categorizedByRule := True,
                          categorizedByAI := False\<rparr>]"
    by (simp add: applyRule_def applyRuleMatches_def R3_def exLedger_def string_eval)
  have bad: "\<not> flagsOk (exLedger ! 0)" and idx: "0 < length exLedger"
    and idt: "id_tx (exLedger ! 0) = ''txn-1000-0''"
    by (simp_all add: flagsOk_def exLedger_def)
  from provenance_flags_exclusive [of fetchNothing clock None exParsed "[R1]" exCategories
      exLedger R3 "''txn-1000-0''" "''cat-income''"] imp rec page rule bad idx idt
  show ?thesis by (auto simp: flagsOk_def list_all_iff)
qed

section \<open>The result map of the AI client\<close>

lemma resultLoop_null:
  "\<exists>item\<in>set items. isNullish item \<Longrightarrow> resultLoop items m = Inl TypeError"
  by (induction items arbitrary: m) auto

lemma entry_step:
  "(case (getField ''index'' item, getField ''categoryId'' item) of
      (JNumber i, JString c) \<Rightarrow> m(i \<mapsto> c)
    | _ \<Rightarrow> m) k
   = (if entryFor k item then categoryOf item else m k)"
  by (auto simp: entryFor_def categoryOf_def split: json.splits)

lemma entryFor_categoryOf: "entryFor k item \<Longrightarrow> \<exists>c. categoryOf item = Some c"
  by (auto simp: entryFor_def categoryOf_def split: json.splits)

lemma lastEntry_Cons:
  "lastEntry (item # items) k =
     (case lastEntry items k of
        Some c \<Rightarrow> Some c
      | None \<Rightarrow> if entryFor k item then categoryOf item else None)"
proof (cases "rev (filter (entryFor k) items)")
  case Nil
  then show ?thesis by (simp add: lastEntry_def)
next
  case (Cons x earlier)
  then have "x \<in> set (rev (filter (entryFor k) items))" by simp
  then have "entryFor k x" by simp
  then obtain c where "categoryOf x = Some c" using entryFor_categoryOf by blast
  then show ?thesis using Cons by (simp add: lastEntry_def)
qed

lemma resultLoop_lastEntry:
  "\<forall>item\<in>set items. \<not> isNullish item \<Longrightarrow>
   resultLoop items m = Inr (\<lambda>k. case lastEntry items k of Some c \<Rightarrow> Some c | None \<Rightarrow> m k)"
proof (induction items arbitrary: m)
  case Nil
  then show ?case by (simp add: lastEntry_def)
next
  case (Cons item items)
  define m' where "m' = (case (getField ''index'' item, getField ''categoryId'' item) of
      (JNumber i, JString c) \<Rightarrow> m(i \<mapsto> c)
    | _ \<Rightarrow> m)"
  have step: "\<And>k. m' k = (if entryFor k item then categoryOf item else m k)"
    unfolding m'_def by (rule entry_step)
  have "resultLoop (item # items) m = resultLoop items m'"
    using Cons.prems by (simp add: m'_def)
  also have "\<dots> = Inr (\<lambda>k. case lastEntry items k of Some c \<Rightarrow> Some c | None \<Rightarrow> m' k)"
    using Cons.prems by (intro Cons.IH) simp
  also have "(\<lambda>k. case lastEntry items k of Some c \<Rightarrow> Some c | None \<Rightarrow> m' k)
      = (\<lambda>k. case lastEntry (item # items) k of Some c \<Rightarrow> Some c | None \<Rightarrow> m k)"
  proof
    fix k
    show "(case lastEntry items k of Some c \<Rightarrow> Some c | None \<Rightarrow> m' k)
      = (case lastEntry (item # items) k of Some c \<Rightarrow> Some c | None \<Rightarrow> m k)"
      using entryFor_categoryOf [of k item]
      by (auto simp: lastEntry_Cons step split: option.splits)
  qed
  finally show ?case .
qed

lemma client_map:
  assumes "\<forall>item\<in>set items. \<not> isNullish item"
  shows "resultLoop items Map.empty = Inr (lastEntry items)"
proof -
  have "(\<lambda>k. case lastEntry items k of Some c \<Rightarrow> Some c | None \<Rightarrow> Map.empty k)
      = lastEntry items"
    by (rule ext) (simp split: option.splits)
  then show ?thesis using resultLoop_lastEntry [OF assms, of Map.empty] by simp
qed

lemma lastEntry_from:
  "lastEntry items k = Some c \<Longrightarrow> \<exists>item\<in>set items. entryFor k item \<and> categoryOf item = Some c"
proof (induction items)
  case Nil
  then show ?case by (simp add: lastEntry_def)
next
  case (Cons item items)
  then show ?case by (auto simp: lastEntry_Cons split: option.splits if_splits)
qed

lemma filterLoop_allowed:
  "item \<in> set (filterLoop allowed items) \<Longrightarrow>
   \<exists>i c. item = JObject [(''index'', JNumber i), (''categoryId'', JString c)] \<and> c \<in> allowed"
  by (induction items) (auto split: json.splits bool.splits if_splits)

lemma handler_answer:
  assumes "fetch batch cats = Ok (handlerBody raw cats)"
  shows "\<exists>m. getCategoryBatchFromAIService fetch batch cats = Inr m
           \<and> (\<forall>i c. m i = Some c \<longrightarrow> c \<in> id_cat ` set cats)"
proof -
  define items where "items = validateAndFilterResults raw cats"
  have shape: "\<forall>item\<in>set items. \<exists>i c.
      item = JObject [(''index'', JNumber i), (''categoryId'', JString c)] \<and> c \<in> id_cat ` set cats"
    unfolding items_def validateAndFilterResults_def
    by (cases raw) (auto dest: filterLoop_allowed)
  then have ok: "\<forall>item\<in>set items. \<not> isNullish item"
    by (auto simp: isNullish_def)
  have res: "resultsOf (handlerBody raw cats) = Inr items"
    by (simp add: resultsOf_def handlerBody_def getField_def isNullish_def items_def)
  have run: "getCategoryBatchFromAIService fetch batch cats = Inr (lastEntry items)"
    using assms res client_map [OF ok]
    by (simp add: getCategoryBatchFromAIService_def)
  have "\<forall>i c. lastEntry items i = Some c \<longrightarrow> c \<in> id_cat ` set cats"
  proof (intro allI impI)
    fix i c assume "lastEntry items i = Some c"
    then obtain item where item: "item \<in> set items" "categoryOf item = Some c"
      using lastEntry_from by blast
    with shape obtain i' c' where
      "item = JObject [(''index'', JNumber i'), (''categoryId'', JString c')]"
      "c' \<in> id_cat ` set cats"
      by blast
    then show "c \<in> id_cat ` set cats"
      using item by (simp add: categoryOf_def getField_def)
  qed
  with run show ?thesis by blast
qed

section \<open>What the orchestrator reads of the result map\<close>

lemma batchPass_cong:
  assumes "\<forall>t\<in>set batch. m (real (snd t)) = m' (real (snd t))"
  shows "batchPass now m nm batch final = batchPass now m' nm batch final"
proof -
  have "\<And>t. t \<in> set batch \<Longrightarrow> aiTransaction now m nm t = aiTransaction now m' nm t"
  proof -
    fix t assume "t \<in> set batch"
    then have eq: "m (real (snd t)) = m' (real (snd t))" using assms by blast
    show "aiTransaction now m nm t = aiTransaction now m' nm t"
      unfolding aiTransaction_def aiOrIncome_def eq by (rule refl)
  qed
  then show ?thesis
    unfolding batchPass_def by (intro fold_cong) simp_all
qed

lemma batchPassRecat_cong:
  assumes "\<forall>t\<in>set batch. m (real (snd t)) = m' (real (snd t))"
  shows "batchPassRecat m nm batch final = batchPassRecat m' nm batch final"
proof -
  have "\<And>t. t \<in> set batch \<Longrightarrow> aiUpdate m nm t = aiUpdate m' nm t"
  proof -
    fix t assume "t \<in> set batch"
    then have eq: "m (real (snd t)) = m' (real (snd t))" using assms by blast
    show "aiUpdate m nm t = aiUpdate m' nm t"
      unfolding aiUpdate_def aiOrIncome_def eq by (rule refl)
  qed
  then show ?thesis
    unfolding batchPassRecat_def by (intro fold_cong) simp_all
qed

lemma batchLoop_cong:
  assumes bs: "0 < bs"
    and same: "\<forall>call batch. sameAnswers batch (getCategoryBatchFromAIService (f call) batch cats)
                 (getCategoryBatchFromAIService (f' call) batch cats)"
  shows "batchLoop f now cats bs xs i call final = batchLoop f' now cats bs xs i call final"
proof (induction "length xs - i" arbitrary: i call final rule: less_induct)
  case less
  show ?case
  proof (cases "i < length xs")
    case False
    then show ?thesis by (simp add: batchLoop.simps)
  next
    case True
    define B where "B = take bs (drop i xs)"
    define a where "a = batchResults (f call) cats B"
    define b where "b = batchResults (f' call) cats B"
    have sa: "sameAnswers (map (\<lambda>t. (description (fst t), snd t)) B) a b"
      using same by (simp add: a_def b_def batchResults_def)
    have dec: "length xs - (i + bs) < length xs - i" using True bs by arith
    show ?thesis
    proof (cases a)
      case (Inl e)
      then have b: "b = Inl e" using sa by (simp add: sameAnswers_def)
      have L: "batchLoop f now cats bs xs i call final = Some (Inl e)"
        using True Inl by (subst batchLoop.simps) (simp add: B_def a_def)
      have R: "batchLoop f' now cats bs xs i call final = Some (Inl e)"
        using True b by (subst batchLoop.simps) (simp add: B_def b_def)
      show ?thesis by (simp add: L R)
    next
      case (Inr m)
      then obtain m' where b: "b = Inr m'"
        and agree: "\<forall>item\<in>set (map (\<lambda>t. (description (fst t), snd t)) B).
                      m (real (snd item)) = m' (real (snd item))"
        using sa by (cases b) (simp_all add: sameAnswers_def)
      from agree have "\<forall>t\<in>set B. m (real (snd t)) = m' (real (snd t))" by simp
      then have pass: "batchPass now m (categoryNameToIdMap cats) B final
          = batchPass now m' (categoryNameToIdMap cats) B final"
        by (rule batchPass_cong)
      have L: "batchLoop f now cats bs xs i call final
          = batchLoop f now cats bs xs (i + bs) (call + 1)
              (batchPass now m (categoryNameToIdMap cats) B final)"
        using True Inr by (subst batchLoop.simps) (simp add: B_def a_def)
      have R: "batchLoop f' now cats bs xs i call final
          = batchLoop f' now cats bs xs (i + bs) (call + 1)
              (batchPass now m' (categoryNameToIdMap cats) B final)"
        using True b by (subst batchLoop.simps) (simp add: B_def b_def)
      show ?thesis unfolding L R pass by (rule less.hyps [OF dec])
    qed
  qed
qed

lemma batchLoopRecat_cong:
  assumes bs: "0 < bs"
    and same: "\<forall>call batch. sameAnswers batch (getCategoryBatchFromAIService (f call) batch cats)
                 (getCategoryBatchFromAIService (f' call) batch cats)"
  shows "batchLoopRecat f cats bs xs i call final = batchLoopRecat f' cats bs xs i call final"
proof (induction "length xs - i" arbitrary: i call final rule: less_induct)
  case less
  show ?case
  proof (cases "i < length xs")
    case False
    then show ?thesis by (simp add: batchLoopRecat.simps)
  next
    case True
    define B where "B = take bs (drop i xs)"
    define a where "a = batchResultsRecat (f call) cats B"
    define b where "b = batchResultsRecat (f' call) cats B"
    have sa: "sameAnswers (map (\<lambda>t. (description (fst t), snd t)) B) a b"
      using same by (simp add: a_def b_def batchResultsRecat_def)
    have dec: "length xs - (i + bs) < length xs - i" using True bs by arith
    show ?thesis
    proof (cases a)
      case (Inl e)
      then have b: "b = Inl e" using sa by (simp add: sameAnswers_def)
      have L: "batchLoopRecat f cats bs xs i call final = Some (Inl e)"
        using True Inl by (subst batchLoopRecat.simps) (simp add: B_def a_def)
      have R: "batchLoopRecat f' cats bs xs i call final = Some (Inl e)"
        using True b by (subst batchLoopRecat.simps) (simp add: B_def b_def)
      show ?thesis by (simp add: L R)
    next
      case (Inr m)
      then obtain m' where b: "b = Inr m'"
        and agree: "\<forall>item\<in>set (map (\<lambda>t. (description (fst t), snd t)) B).
                      m (real (snd item)) = m' (real (snd item))"
        using sa by (cases b) (simp_all add: sameAnswers_def)
      from agree have "\<forall>t\<in>set B. m (real (snd t)) = m' (real (snd t))" by simp
      then have pass: "batchPassRecat m (categoryNameToIdMap cats) B final
          = batchPassRecat m' (categoryNameToIdMap cats) B final"
        by (rule batchPassRecat_cong)
      have L: "batchLoopRecat f cats bs xs i call final
          = batchLoopRecat f cats bs xs (i + bs) (call + 1)
              (batchPassRecat m (categoryNameToIdMap cats) B final)"
        using True Inr by (subst batchLoopRecat.simps) (simp add: B_def a_def)
      have R: "batchLoopRecat f' cats bs xs i call final
          = batchLoopRecat f' cats bs xs (i + bs) (call + 1)
              (batchPassRecat m' (categoryNameToIdMap cats) B final)"
        using True b by (subst batchLoopRecat.simps) (simp add: B_def b_def)
      show ?thesis unfolding L R pass by (rule less.hyps [OF dec])
    qed
  qed
qed

lemma orchestrator_reads_batch:
  assumes "\<forall>call batch. sameAnswers batch (getCategoryBatchFromAIService (f call) batch cats)
                 (getCategoryBatchFromAIService (f' call) batch cats)"
  shows "categorizeTransactions f now stored pts rules cats
           = categorizeTransactions f' now stored pts rules cats
         \<and> recategorizeUncategorizedTransactions f stored txs rules cats
           = recategorizeUncategorizedTransactions f' stored txs rules cats"
  unfolding categorizeTransactions_def recategorizeUncategorizedTransactions_def
  by (simp add: batchLoop_cong [OF getBatchSize_pos assms]
      batchLoopRecat_cong [OF getBatchSize_pos assms] split: prod.splits)

text \<open>
  C1, as the code has it. The client \<^verbatim>\<open>getCategoryBatchFromAIService\<close> returns the
  empty map for a non-2xx answer. For a 2xx answer with a decoded body whose results
  have no null entry it returns the map that sends a number to the category id of the
  last response entry that has this number as its index and a string as its category
  id, and to nothing when there is no such entry: a later entry for an index replaces an
  earlier one, and no entry is dropped for an index that was not requested or for a
  category id outside the catalog. A rejected request, a body that is not JSON, results
  that cannot be iterated and a null entry make the call throw. When the body is what
  the service handler's \<^verbatim>\<open>validateAndFilterResults\<close> lets through, every category id
  in the map is an id of the catalog. Both paths of the orchestrator read the map at the
  indices of the batch they sent only: two services whose answers agree there give the
  same result.
\<close>

theorem result_map_follows_response:
  "(fetch batch cats = NotOk \<longrightarrow> getCategoryBatchFromAIService fetch batch cats = Inr Map.empty)
   \<and> (fetch batch cats = Ok data \<and> resultsOf data = Inr items
        \<and> (\<forall>item\<in>set items. \<not> isNullish item) \<longrightarrow>
          getCategoryBatchFromAIService fetch batch cats = Inr (lastEntry items))
   \<and> (fetch batch cats = Rejected \<longrightarrow>
          getCategoryBatchFromAIService fetch batch cats = Inl FetchRejected)
   \<and> (fetch batch cats = NotJson \<longrightarrow>
          getCategoryBatchFromAIService fetch batch cats = Inl JsonSyntaxError)
   \<and> (fetch batch cats = Ok data \<and> resultsOf data = Inl e \<longrightarrow>
          getCategoryBatchFromAIService fetch batch cats = Inl e)
   \<and> (fetch batch cats = Ok data \<and> resultsOf data = Inr items
        \<and> (\<exists>item\<in>set items. isNullish item) \<longrightarrow>
          getCategoryBatchFromAIService fetch batch cats = Inl TypeError)
   \<and> (fetch batch cats = Ok (handlerBody raw cats) \<longrightarrow>
          (\<exists>m. getCategoryBatchFromAIService fetch batch cats = Inr m
              \<and> (\<forall>i c. m i = Some c \<longrightarrow> c \<in> id_cat ` set cats)))
   \<and> ((\<forall>call batch. sameAnswers batch (getCategoryBatchFromAIService (f call) batch cats)
                        (getCategoryBatchFromAIService (f' call) batch cats)) \<longrightarrow>
          categorizeTransactions f now stored pts rules cats
            = categorizeTransactions f' now stored pts rules cats
          \<and> recategorizeUncategorizedTransactions f stored txs rules cats
            = recategorizeUncategorizedTransactions f' stored txs rules cats)"
proof (intro conjI impI)
  assume "fetch batch cats = NotOk"
  then show "getCategoryBatchFromAIService fetch batch cats = Inr Map.empty"
    by (simp add: getCategoryBatchFromAIService_def)
next
  assume h: "fetch batch cats = Ok data \<and> resultsOf data = Inr items
        \<and> (\<forall>item\<in>set items. \<not> isNullish item)"
  then have "resultLoop items Map.empty = Inr (lastEntry items)"
    by (intro client_map) simp
  then show "getCategoryBatchFromAIService fetch batch cats = Inr (lastEntry items)"
    using h by (simp add: getCategoryBatchFromAIService_def)
next
  assume "fetch batch cats = Rejected"
  then show "getCategoryBatchFromAIService fetch batch cats = Inl FetchRejected"
    by (simp add: getCategoryBatchFromAIService_def)
next
  assume "fetch batch cats = NotJson"
  then show "getCategoryBatchFromAIService fetch batch cats = Inl JsonSyntaxError"
    by (simp add: getCategoryBatchFromAIService_def)
next
  assume "fetch batch cats = Ok data \<and> resultsOf data = Inl e"
  then show "getCategoryBatchFromAIService fetch batch cats = Inl e"
    by (simp add: getCategoryBatchFromAIService_def)
next
  assume h: "fetch batch cats = Ok data \<and> resultsOf data = Inr items
        \<and> (\<exists>item\<in>set items. isNullish item)"
  then have "resultLoop items Map.empty = Inl TypeError"
    by (intro resultLoop_null) simp
  then show "getCategoryBatchFromAIService fetch batch cats = Inl TypeError"
    using h by (simp add: getCategoryBatchFromAIService_def)
next
  assume "fetch batch cats = Ok (handlerBody raw cats)"
  then show "\<exists>m. getCategoryBatchFromAIService fetch batch cats = Inr m
              \<and> (\<forall>i c. m i = Some c \<longrightarrow> c \<in> id_cat ` set cats)"
    by (rule handler_answer)
next
  assume same: "\<forall>call batch. sameAnswers batch (getCategoryBatchFromAIService (f call) batch cats)
                        (getCategoryBatchFromAIService (f' call) batch cats)"
  show "categorizeTransactions f now stored pts rules cats
            = categorizeTransactions f' now stored pts rules cats"
    by (simp add: orchestrator_reads_batch [OF same])
  show "recategorizeUncategorizedTransactions f stored txs rules cats
            = recategorizeUncategorizedTransactions f' stored txs rules cats"
    by (simp add: orchestrator_reads_batch [OF same])
qed

text \<open>
  A non-2xx answer; the answer to the batch of indices \<open>0, 1, 2\<close> that names index \<open>1\<close>
  twice; an answer with a null entry; a rejected call; an answer that went through the
  handler; and a service that answers for the index \<open>-1\<close> only, next to one that
  answers nothing.
\<close>

theorem result_map_follows_response_witness:
  "getCategoryBatchFromAIService (fetchDown 0) exBatch exCategories = Inr Map.empty
   \<and> getCategoryBatchFromAIService fetchMalformed exBatch exCategories = Inr (lastEntry exAnswer)
   \<and> lastEntry exAnswer 1 = Some ''cat-income'' \<and> lastEntry exAnswer 0 = Some ''cat-groceries''
   \<and> lastEntry exAnswer 3 = None
   \<and> getCategoryBatchFromAIService fetchNullEntry exBatch exCategories = Inl TypeError
   \<and> getCategoryBatchFromAIService (fetchSecondRejected 1) exBatch exCategories = Inl FetchRejected
   \<and> validateAndFilterResults exRaw exCategories = [entry 0 ''cat-groceries'', entry 5 ''cat-groceries'']
   \<and> (\<exists>m. getCategoryBatchFromAIService fetchFiltered exBatch exCategories = Inr m
          \<and> m 5 = Some ''cat-groceries'' \<and> m 2 = None
          \<and> ''cat-groceries'' \<in> id_cat ` set exCategories)
   \<and> getCategoryBatchFromAIService (fetchStray 0) exBatch exCategories
       = Inr [- 1 \<mapsto> ''cat-groceries'']
   \<and> categorizeTransactions fetchStray clock None exParsed [R1] exCategories
       = categorizeTransactions fetchNothing clock None exParsed [R1] exCategories"
proof -
  note down_case = result_map_follows_response [THEN conjunct1, rule_format]
  note ok_case = result_map_follows_response [THEN conjunct2, THEN conjunct1, rule_format]
  note rejected_case = result_map_follows_response
    [THEN conjunct2, THEN conjunct2, THEN conjunct1, rule_format]
  note null_case = result_map_follows_response
    [THEN conjunct2, THEN conjunct2, THEN conjunct2, THEN conjunct2, THEN conjunct2,
     THEN conjunct1, rule_format]
  note handler_case = result_map_follows_response
    [THEN conjunct2, THEN conjunct2, THEN conjunct2, THEN conjunct2, THEN conjunct2,
     THEN conjunct2, THEN conjunct1, rule_format]
  note reads_case = result_map_follows_response
    [THEN conjunct2, THEN conjunct2, THEN conjunct2, THEN conjunct2, THEN conjunct2,
     THEN conjunct2, THEN conjunct2, rule_format]
  have down: "getCategoryBatchFromAIService (fetchDown 0) exBatch exCategories = Inr Map.empty"
    by (rule down_case) (simp add: fetchDown_def)
  have mal: "getCategoryBatchFromAIService fetchMalformed exBatch exCategories
      = Inr (lastEntry exAnswer)"
    by (rule ok_case [where data = "body exAnswer"])
       (simp add: fetchMalformed_def resultsOf_def body_def getField_def isNullish_def
          exAnswer_def entry_def)
  have last: "lastEntry exAnswer 1 = Some ''cat-income''"
    "lastEntry exAnswer 0 = Some ''cat-groceries''" "lastEntry exAnswer 3 = None"
    by (simp_all add: lastEntry_def entryFor_def categoryOf_def getField_def exAnswer_def entry_def)
  have null: "getCategoryBatchFromAIService fetchNullEntry exBatch exCategories = Inl TypeError"
    by (rule null_case [where data = "body [entry 0 ''cat-groceries'', JNull]"
          and items = "[entry 0 ''cat-groceries'', JNull]"])
       (simp add: fetchNullEntry_def resultsOf_def body_def getField_def isNullish_def entry_def)
  have rej: "getCategoryBatchFromAIService (fetchSecondRejected 1) exBatch exCategories
      = Inl FetchRejected"
    by (rule rejected_case) (simp add: fetchSecondRejected_def)
  have raw: "validateAndFilterResults exRaw exCategories
      = [entry 0 ''cat-groceries'', entry 5 ''cat-groceries'']"
    by (simp add: validateAndFilterResults_def exRaw_def exCategories_def isObject_def
        getField_def entry_def)
  have filt: "getCategoryBatchFromAIService fetchFiltered exBatch exCategories
      = Inr [0 \<mapsto> ''cat-groceries'', 5 \<mapsto> ''cat-groceries'']"
    by (simp add: getCategoryBatchFromAIService_def fetchFiltered_def handlerBody_def raw
        resultsOf_def getField_def isNullish_def entry_def)
  have "\<exists>m. getCategoryBatchFromAIService fetchFiltered exBatch exCategories = Inr m
          \<and> (\<forall>i c. m i = Some c \<longrightarrow> c \<in> id_cat ` set exCategories)"
    by (rule handler_case [where raw = exRaw]) (simp add: fetchFiltered_def)
  then obtain m where m: "getCategoryBatchFromAIService fetchFiltered exBatch exCategories = Inr m"
    and allowed: "\<forall>i c. m i = Some c \<longrightarrow> c \<in> id_cat ` set exCategories"
    by blast
  from m filt have "m = [0 \<mapsto> ''cat-groceries'', 5 \<mapsto> ''cat-groceries'']" by simp
  then have five: "m 5 = Some ''cat-groceries''" and two: "m 2 = None" by simp_all
  from allowed five have "''cat-groceries'' \<in> id_cat ` set exCategories" by blast
  with m five two
  have handler: "\<exists>m. getCategoryBatchFromAIService fetchFiltered exBatch exCategories = Inr m
          \<and> m 5 = Some ''cat-groceries'' \<and> m 2 = None
          \<and> ''cat-groceries'' \<in> id_cat ` set exCategories"
    by blast
  have stray: "\<And>call batch. getCategoryBatchFromAIService (fetchStray call) batch exCategories
      = Inr [- 1 \<mapsto> ''cat-groceries'']"
    by (simp add: getCategoryBatchFromAIService_def fetchStray_def body_def entry_def
        resultsOf_def getField_def isNullish_def)
  have silent: "\<And>call batch. getCategoryBatchFromAIService (fetchNothing call) batch exCategories
      = Inr Map.empty"
    by (simp add: getCategoryBatchFromAIService_def fetchNothing_def body_def
        resultsOf_def getField_def isNullish_def)
  have same: "\<forall>call batch. sameAnswers batch
      (getCategoryBatchFromAIService (fetchStray call) batch exCategories)
      (getCategoryBatchFromAIService (fetchNothing call) batch exCategories)"
  proof (intro allI)
    fix call batch
    have neg: "\<And>n :: nat. real n \<noteq> - 1"
    proof
      fix n :: nat
      assume "real n = - 1"
      moreover have "0 \<le> real n" by simp
      ultimately show False by linarith
    qed
    show "sameAnswers batch
      (getCategoryBatchFromAIService (fetchStray call) batch exCategories)
      (getCategoryBatchFromAIService (fetchNothing call) batch exCategories)"
      unfolding stray silent by (simp add: sameAnswers_def neg)
  qed
  have orch: "categorizeTransactions fetchStray clock None exParsed [R1] exCategories
       = categorizeTransactions fetchNothing clock None exParsed [R1] exCategories"
    using reads_case [where f = fetchStray and f' = fetchNothing and cats = exCategories] same
    by blast
  show ?thesis using down mal last null rej raw handler stray orch by simp
qed

text \<open>
  C1 as stated fails on the client: for the batch of indices \<open>0, 1, 2\<close> and the example
  catalog, the entry for index \<open>5\<close> and the entry with the category
  \<open>cat-doesnotexist\<close> are both in the returned map, next to the valid entry.
\<close>

theorem result_map_counterexample:
  "map snd exBatch = [0, 1, 2]
   \<and> map id_cat exCategories = [''cat-uncategorized'', ''cat-groceries'', ''cat-income'']
   \<and> getCategoryBatchFromAIService fetchMalformed exBatch exCategories =
       Inr [0 \<mapsto> ''cat-groceries'', 5 \<mapsto> ''cat-groceries'', 2 \<mapsto> ''cat-doesnotexist'',
            1 \<mapsto> ''cat-income'']"
  by (simp add: getCategoryBatchFromAIService_def fetchMalformed_def exAnswer_def body_def
      entry_def resultsOf_def getField_def isNullish_def exBatch_def exCategories_def)

section \<open>Income fallback\<close>

text \<open>
  C5. After rules and AI have run, a transaction still lacking a category whose amount
  is strictly positive is to get the id of the catalog category named \<open>Income\<close>. The
  code tests \<^verbatim>\<open>!categoryId\<close> on the answer of the service, and the sentinel
  \<open>cat-uncategorized\<close>, which the prompt asks the model to answer when it is unsure and
  which the data model reads as no category, is not empty. On an import of one inflow of
  \<open>50\<close> that no rule matches, with the example catalog (it has the category \<open>Income\<close>
  with the id \<open>cat-income\<close>), a service that answers with the sentinel leaves the
  transaction with \<open>cat-uncategorized\<close>, marked as categorized by AI, where a service
  that answers nothing gives it \<open>cat-income\<close>; the recategorize path does the same.
\<close>

theorem income_fallback_skips_sentinel:
  "categorizeTransactions fetchSentinel clock None exInflow [] exCategories =
     Some (Inr [Some \<lparr>date = ''2024-02-01T00:00:00.000Z'', rawDate = ''01/02/2024'',
                      description = ''SALARY PTY LTD'', amount = 50,
                      id_tx = ''txn-1000-0'', categoryId = Some ''cat-uncategorized'',
                      categorizedByRule = False, categorizedByAI = True\<rparr>])
   \<and> categorizeTransactions fetchNothing clock None exInflow [] exCategories =
     Some (Inr [Some \<lparr>date = ''2024-02-01T00:00:00.000Z'', rawDate = ''01/02/2024'',
                      description = ''SALARY PTY LTD'', amount = 50,
                      id_tx = ''txn-1000-0'', categoryId = Some ''cat-income'',
                      categorizedByRule = False, categorizedByAI = False\<rparr>])
   \<and> recategorizeUncategorizedTransactions fetchSentinel None [exLedger ! 0] [] exCategories =
     Some (Inr [(exLedger ! 0)\<lparr>categoryId := Some ''cat-uncategorized'',
                                categorizedByRule := False, categorizedByAI := True\<rparr>])
   \<and> recategorizeUncategorizedTransactions fetchNothing None [exLedger ! 0] [] exCategories =
     Some (Inr [(exLedger ! 0)\<lparr>categoryId := Some ''cat-income'',
                                categorizedByRule := False, categorizedByAI := False\<rparr>])
   \<and> amount (exLedger ! 0) = 50"
  by (simp add: categorizeTransactions_def batchLoop.simps
      recategorizeUncategorizedTransactions_def batchLoopRecat.simps
      example_eval client_eval pipeline_eval string_eval)

section \<open>Normalization of descriptions\<close>

text \<open>
  The code's \<^verbatim>\<open>normalize\<close> (trim, lower case, every run of white space replaced by
  one space) gives the words of the text in lower case, joined by single spaces.
\<close>

lemma lower_char_space: "lower_char CHR '' '' = CHR '' ''"
  by (simp add: lower_char_def)

lemma collapseSpaces_lower:
  "collapseSpaces (map lower_char s) = map lower_char (collapseSpaces s)"
  by (induction s rule: collapseSpaces.induct)
     (simp_all add: isSpace_lower_char lower_char_space)

lemma joinWords_lower:
  "joinWords (map (map lower_char) ws) = map lower_char (joinWords ws)"
  by (induction ws rule: joinWords.induct) (simp_all add: lower_char_space)

lemma joinWords_Cons:
  "joinWords (w # ws) = (if ws = [] then w else w @ CHR '' '' # joinWords ws)"
  by (cases ws) simp_all

lemma trimEnd_all: "list_all isSpace cs \<Longrightarrow> dropWhile isSpace (rev cs) = []"
  by (simp add: list_all_iff)

lemma trimEnd_Cons:
  "rev (dropWhile isSpace (rev cs @ [c])) =
     (if list_all isSpace (c # cs) then [] else c # rev (dropWhile isSpace (rev cs)))"
proof (cases "\<forall>x\<in>set (rev cs). isSpace x")
  case True
  then have "dropWhile isSpace (rev cs @ [c]) = dropWhile isSpace [c]"
    by (intro dropWhile_append2) simp
  moreover have "dropWhile isSpace (rev cs) = []" using True by simp
  ultimately show ?thesis using True by (simp add: list_all_iff)
next
  case False
  then obtain x where "x \<in> set (rev cs)" "\<not> isSpace x" by blast
  then have "dropWhile isSpace (rev cs @ [c]) = dropWhile isSpace (rev cs) @ [c]"
    by (intro dropWhile_append1)
  then show ?thesis using False by (simp add: list_all_iff)
qed

lemma trimEnd_dropWhile:
  "dropWhile isSpace (rev (dropWhile isSpace (rev cs)))
     = rev (dropWhile isSpace (rev (dropWhile isSpace cs)))"
proof (induction cs)
  case Nil
  then show ?case by simp
next
  case (Cons c cs)
  show ?case
  proof (cases "isSpace c")
    case True
    then show ?thesis
      by (simp add: trimEnd_Cons Cons.IH [symmetric] trimEnd_all)
  next
    case False
    then show ?thesis by (simp add: trimEnd_Cons)
  qed
qed

lemma collapseSpaces_space:
  "isSpace c \<Longrightarrow> collapseSpaces (c # x) = CHR '' '' # collapseSpaces (dropWhile isSpace x)"
  by (induction x arbitrary: c) simp_all

lemma collapseSpaces_letter: "\<not> isSpace c \<Longrightarrow> collapseSpaces (c # x) = c # collapseSpaces x"
  by (cases x) simp_all

lemma wordsFrom_Nil_iff: "wordsFrom w cs = [] \<longleftrightarrow> w = [] \<and> list_all isSpace cs"
  by (induction cs arbitrary: w) auto

lemma words_collapse:
  "joinWords (wordsFrom [] s)
     = collapseSpaces (rev (dropWhile isSpace (rev (dropWhile isSpace s))))
   \<and> (\<forall>w. w \<noteq> [] \<longrightarrow>
         joinWords (wordsFrom w s) = w @ collapseSpaces (rev (dropWhile isSpace (rev s))))"
proof (induction s)
  case Nil
  then show ?case by simp
next
  case (Cons c cs)
  note first = Cons.IH [THEN conjunct1]
  note later = Cons.IH [THEN conjunct2, rule_format]
  show ?case
  proof (cases "isSpace c")
    case True
    have a: "joinWords (wordsFrom [] (c # cs))
        = collapseSpaces (rev (dropWhile isSpace (rev (dropWhile isSpace (c # cs)))))"
      using True first by simp
    have b: "joinWords (wordsFrom w (c # cs))
        = w @ collapseSpaces (rev (dropWhile isSpace (rev (c # cs))))" if w: "w \<noteq> []" for w
    proof (cases "list_all isSpace cs")
      case all: True
      then have "wordsFrom [] cs = []" by (simp add: wordsFrom_Nil_iff)
      then show ?thesis using True w all by (simp add: trimEnd_Cons)
    next
      case some: False
      then have ne: "wordsFrom [] cs \<noteq> []" by (simp add: wordsFrom_Nil_iff)
      have "collapseSpaces (c # rev (dropWhile isSpace (rev cs)))
          = CHR '' '' # collapseSpaces (rev (dropWhile isSpace (rev (dropWhile isSpace cs))))"
        using True by (simp add: collapseSpaces_space trimEnd_dropWhile)
      then show ?thesis using True w some ne first
        by (simp add: trimEnd_Cons joinWords_Cons)
    qed
    show ?thesis using a b by blast
  next
    case False
    have t: "rev (dropWhile isSpace (rev cs @ [c])) = c # rev (dropWhile isSpace (rev cs))"
      using False by (simp add: trimEnd_Cons)
    have a: "joinWords (wordsFrom [] (c # cs))
        = collapseSpaces (rev (dropWhile isSpace (rev (dropWhile isSpace (c # cs)))))"
      using False later [of "[c]"] by (simp add: t collapseSpaces_letter)
    have b: "joinWords (wordsFrom w (c # cs))
        = w @ collapseSpaces (rev (dropWhile isSpace (rev (c # cs))))" if w: "w \<noteq> []" for w
      using False later [of "w @ [c]"] by (simp add: t collapseSpaces_letter)
    show ?thesis using a b by blast
  qed
qed

lemma normalize_normalized: "normalize s = normalized s"
proof (cases "s = []")
  case True
  then show ?thesis by (simp add: normalize_def normalized_def)
next
  case False
  have "normalize s = map lower_char (collapseSpaces (trim s))"
    using False by (simp add: normalize_def toLowerCase_def collapseSpaces_lower)
  also have "collapseSpaces (trim s) = joinWords (wordsFrom [] s)"
    using words_collapse [of s] by (simp add: trim_def)
  also have "map lower_char (joinWords (wordsFrom [] s)) = normalized s"
    unfolding normalized_def toLowerCase_def by (simp add: joinWords_lower)
  finally show ?thesis .
qed

lemma dedupKey_fingerprint: "dedupKey n t = fingerprint n t"
  by (simp add: dedupKey_def fingerprint_def normalize_normalized)

section \<open>Duplicate filter\<close>

lemma existingSet_eq: "existingSet n ledger = fingerprint n ` set ledger"
proof -
  have "\<And>s. fold (\<lambda>t s. insert (dedupKey n t) s) ledger s = dedupKey n ` set ledger \<union> s"
    by (induction ledger) auto
  then have "existingSet n ledger = dedupKey n ` set ledger" by (simp add: existingSet_def)
  also have "\<dots> = fingerprint n ` set ledger"
    by (rule image_cong) (simp_all add: dedupKey_fingerprint)
  finally show ?thesis .
qed

lemma uniqueParsed_eq:
  "uniqueParsed n ledger parsed = filter (\<lambda>p. fingerprint n p \<notin> fingerprint n ` set ledger) parsed"
  by (simp add: uniqueParsed_def existingSet_eq dedupKey_fingerprint)

lemma fingerprint_cong:
  "date p = date t \<Longrightarrow> amount p = amount t \<Longrightarrow> normalized (description p) = normalized (description t)
   \<Longrightarrow> fingerprint n p = fingerprint n t"
  by (simp add: fingerprint_def)

lemma fingerprint_row:
  "date tx = date p \<Longrightarrow> amount tx = amount p \<Longrightarrow> description tx = description p
   \<Longrightarrow> fingerprint n tx = fingerprint n p"
  by (simp add: fingerprint_def)

lemma categorize_rows:
  assumes "categorizeTransactions fetch now stored pts rules cats = Some (Inr final)"
  shows "length final = length pts
         \<and> (\<forall>i<length pts. \<exists>t. final ! i = Some t \<and> date t = date (pts ! i)
               \<and> rawDate t = rawDate (pts ! i) \<and> description t = description (pts ! i)
               \<and> amount t = amount (pts ! i))"
proof -
  from categorizeTransactions_slots [of fetch now stored pts rules cats] assms
  have len: "length final = length pts"
    and each: "\<forall>i<length pts.
                 case applyRules (toLowerCase (description (pts ! i))) rules of
                   (cid, True) \<Rightarrow> final ! i = Some (ruleTransaction now i (pts ! i) cid)
                 | (cid, False) \<Rightarrow>
                     (\<exists>call batch aiResults.
                        batchResults (fetch call) cats batch = Inr aiResults
                        \<and> (pts ! i, i) \<in> set batch
                        \<and> final ! i = Some (aiTransaction now aiResults
                                             (categoryNameToIdMap cats) (pts ! i, i)))"
    by auto
  have "\<forall>i<length pts. \<exists>t. final ! i = Some t \<and> date t = date (pts ! i)
               \<and> rawDate t = rawDate (pts ! i) \<and> description t = description (pts ! i)
               \<and> amount t = amount (pts ! i)"
  proof (intro allI impI)
    fix i assume i: "i < length pts"
    consider (rule) c where "applyRules (toLowerCase (description (pts ! i))) rules = (Some c, True)"
      | (ai) "applyRules (toLowerCase (description (pts ! i))) rules = (None, False)"
      using applyRules_shape by blast
    then show "\<exists>t. final ! i = Some t \<and> date t = date (pts ! i)
               \<and> rawDate t = rawDate (pts ! i) \<and> description t = description (pts ! i)
               \<and> amount t = amount (pts ! i)"
    proof cases
      case rule
      with each i have "final ! i = Some (ruleTransaction now i (pts ! i) (Some c))"
        by fastforce
      then show ?thesis by (simp add: ruleTransaction_def)
    next
      case ai
      with each i obtain aiResults where "final ! i =
          Some (aiTransaction now aiResults (categoryNameToIdMap cats) (pts ! i, i))"
        by fastforce
      then show ?thesis by (simp add: aiTransaction_def split: prod.splits)
    qed
  qed
  with len show ?thesis by simp
qed

lemma categorize_thrown:
  assumes "categorizeTransactions fetch now stored pts rules cats = Some (Inl a)"
  shows "\<exists>call batch. getCategoryBatchFromAIService (fetch call) batch cats = Inl a"
proof -
  from categorizeTransactions_slots [of fetch now stored pts rules cats] assms
  obtain call batch where "batchResults (fetch call) cats batch = Inl a" by auto
  then show ?thesis unfolding batchResults_def by blast
qed

lemma categorize_returns: "\<exists>r. categorizeTransactions fetch now stored pts rules cats = Some r"
  using categorizeTransactions_slots [of fetch now stored pts rules cats] by blast

text \<open>
  What \<^verbatim>\<open>handleFileSelect\<close> ends with: one of its two messages, the message of what a
  call of the service threw, or a preview with one transaction for every row that passed
  the filter, in the order of the rows and with the row's fields.
\<close>

lemma handleFileSelect_outcome:
  "\<exists>r. handleFileSelect n fetch now stored ledger rules cats parsed = Some r \<and>
     (case r of
        Inl e \<Rightarrow>
          (e = NoTransactionsFound \<and> parsed = [])
          \<or> (e = AllAlreadyExist (length parsed) \<and> parsed \<noteq> []
               \<and> uniqueParsed n ledger parsed = [])
          \<or> (\<exists>a call batch. e = CategorizationFailed a
               \<and> getCategoryBatchFromAIService (fetch call) batch cats = Inl a)
      | Inr preview \<Rightarrow>
          length preview = length (uniqueParsed n ledger parsed)
          \<and> (\<forall>i<length preview. \<exists>tx. preview ! i = Some tx
                \<and> date tx = date (uniqueParsed n ledger parsed ! i)
                \<and> rawDate tx = rawDate (uniqueParsed n ledger parsed ! i)
                \<and> description tx = description (uniqueParsed n ledger parsed ! i)
                \<and> amount tx = amount (uniqueParsed n ledger parsed ! i)))"
proof -
  let ?u = "uniqueParsed n ledger parsed"
  consider (none) "parsed = []" | (all) "parsed \<noteq> []" "?u = []" | (some) "parsed \<noteq> []" "?u \<noteq> []"
    by blast
  then show ?thesis
  proof cases
    case none
    then show ?thesis by (simp add: handleFileSelect_def)
  next
    case all
    then show ?thesis by (simp add: handleFileSelect_def)
  next
    case some
    obtain r where run: "categorizeTransactions fetch now stored ?u rules cats = Some r"
      using categorize_returns by blast
    have sel: "handleFileSelect n fetch now stored ledger rules cats parsed
        = Some (map_sum CategorizationFailed id r)"
      using some run by (simp add: handleFileSelect_def)
    show ?thesis
    proof (cases r)
      case (Inl a)
      with run have "\<exists>call batch. getCategoryBatchFromAIService (fetch call) batch cats = Inl a"
        using categorize_thrown by blast
      then show ?thesis using sel Inl by simp
    next
      case (Inr preview)
      with run have "length preview = length ?u
         \<and> (\<forall>i<length ?u. \<exists>t. preview ! i = Some t \<and> date t = date (?u ! i)
               \<and> rawDate t = rawDate (?u ! i) \<and> description t = description (?u ! i)
               \<and> amount t = amount (?u ! i))"
        using categorize_rows by blast
      then show ?thesis using sel Inr by simp
    qed
  qed
qed

text \<open>
  C7. The duplicate filter of the import path keeps, in their order, exactly the parsed
  transactions whose fingerprint \<open>date|amount|normalized(description)\<close> (the description
  in lower case, trimmed, every run of white space one space) is the fingerprint of no
  transaction of the ledger. So a parsed row with the date, the amount and the
  normalized description of a ledger transaction does not pass the filter. The import
  comes to an end with one of its messages and no preview, or with a preview in which
  every slot is a transaction whose fingerprint is the fingerprint of no ledger
  transaction: re-importing a row that the ledger has adds nothing for it.
\<close>

theorem dedup_against_ledger:
  "uniqueParsed n ledger parsed
     = filter (\<lambda>p. fingerprint n p \<notin> fingerprint n ` set ledger) parsed
   \<and> (\<forall>p\<in>set parsed. \<forall>t\<in>set ledger.
         date p = date t \<and> amount p = amount t
         \<and> normalized (description p) = normalized (description t)
         \<longrightarrow> p \<notin> set (uniqueParsed n ledger parsed))
   \<and> (\<exists>r. handleFileSelect n fetch now stored ledger rules cats parsed = Some r
        \<and> (case r of
             Inl e \<Rightarrow>
               (e = NoTransactionsFound \<and> parsed = [])
               \<or> (e = AllAlreadyExist (length parsed) \<and> parsed \<noteq> []
                    \<and> uniqueParsed n ledger parsed = [])
               \<or> (\<exists>a call batch. e = CategorizationFailed a
                    \<and> getCategoryBatchFromAIService (fetch call) batch cats = Inl a)
           | Inr preview \<Rightarrow>
               length preview = length (uniqueParsed n ledger parsed)
               \<and> (\<forall>slot\<in>set preview. \<exists>tx. slot = Some tx
                     \<and> fingerprint n tx \<notin> fingerprint n ` set ledger)))"
proof -
  let ?u = "uniqueParsed n ledger parsed"
  have a: "?u = filter (\<lambda>p. fingerprint n p \<notin> fingerprint n ` set ledger) parsed"
    by (rule uniqueParsed_eq)
  have b: "\<forall>p\<in>set parsed. \<forall>t\<in>set ledger.
         date p = date t \<and> amount p = amount t
         \<and> normalized (description p) = normalized (description t)
         \<longrightarrow> p \<notin> set ?u"
  proof (intro ballI impI)
    fix p :: ParsedTransaction and t :: Transaction
    assume "t \<in> set ledger"
      and "date p = date t \<and> amount p = amount t
         \<and> normalized (description p) = normalized (description t)"
    then have "fingerprint n p \<in> fingerprint n ` set ledger"
      using fingerprint_cong [of p t n] by force
    then show "p \<notin> set ?u" by (simp add: uniqueParsed_eq)
  qed
  from handleFileSelect_outcome [of n fetch now stored ledger rules cats parsed]
  obtain r where run: "handleFileSelect n fetch now stored ledger rules cats parsed = Some r"
    and r: "case r of
        Inl e \<Rightarrow>
          (e = NoTransactionsFound \<and> parsed = [])
          \<or> (e = AllAlreadyExist (length parsed) \<and> parsed \<noteq> [] \<and> ?u = [])
          \<or> (\<exists>a call batch. e = CategorizationFailed a
               \<and> getCategoryBatchFromAIService (fetch call) batch cats = Inl a)
      | Inr preview \<Rightarrow>
          length preview = length ?u
          \<and> (\<forall>i<length preview. \<exists>tx. preview ! i = Some tx
                \<and> date tx = date (?u ! i) \<and> rawDate tx = rawDate (?u ! i)
                \<and> description tx = description (?u ! i) \<and> amount tx = amount (?u ! i))"
    by blast
  have c: "case r of
             Inl e \<Rightarrow>
               (e = NoTransactionsFound \<and> parsed = [])
               \<or> (e = AllAlreadyExist (length parsed) \<and> parsed \<noteq> [] \<and> ?u = [])
               \<or> (\<exists>a call batch. e = CategorizationFailed a
                    \<and> getCategoryBatchFromAIService (fetch call) batch cats = Inl a)
           | Inr preview \<Rightarrow>
               length preview = length ?u
               \<and> (\<forall>slot\<in>set preview. \<exists>tx. slot = Some tx
                     \<and> fingerprint n tx \<notin> fingerprint n ` set ledger)"
  proof (cases r)
    case (Inl e)
    then show ?thesis using r by simp
  next
    case (Inr preview)
    with r have len: "length preview = length ?u"
      and rows: "\<forall>i<length preview. \<exists>tx. preview ! i = Some tx
                \<and> date tx = date (?u ! i) \<and> rawDate tx = rawDate (?u ! i)
                \<and> description tx = description (?u ! i) \<and> amount tx = amount (?u ! i)"
      by simp_all
    have "\<forall>slot\<in>set preview. \<exists>tx. slot = Some tx
                     \<and> fingerprint n tx \<notin> fingerprint n ` set ledger"
    proof
      fix slot assume "slot \<in> set preview"
      then obtain i where i: "i < length preview" and slot: "slot = preview ! i"
        by (metis in_set_conv_nth)
      with rows obtain tx where tx: "preview ! i = Some tx" "date tx = date (?u ! i)"
        "description tx = description (?u ! i)" "amount tx = amount (?u ! i)"
        by blast
      then have same: "fingerprint n tx = fingerprint n (?u ! i)"
        by (intro fingerprint_row)
      have "?u ! i \<in> set ?u" using i len by simp
      then have "fingerprint n (?u ! i) \<notin> fingerprint n ` set ledger"
        by (simp add: uniqueParsed_eq)
      then show "\<exists>tx. slot = Some tx \<and> fingerprint n tx \<notin> fingerprint n ` set ledger"
        using tx(1) slot same by simp
    qed
    then show ?thesis using Inr len by simp
  qed
  from a b run c show ?thesis by blast
qed

lemmas dedup_eval = uniqueParsed_def existingSet_def dedupKey_def normalize_def
  numberToStringInt_def showInt_def showNat.simps digitChar_def cafeLedger_def cafeParsed_def
  cafeRow_def cafeNero_def

lemmas words_eval = normalized_def fingerprint_def

text \<open>
  A ledger transaction in capitals with a letter outside ASCII, and a file whose first
  and third row differ from it in case and white space only, and whose second and fourth
  row are new.
\<close>

theorem dedup_against_ledger_witness:
  "normalized (description (cafeLedger ! 0)) = ''caf'' @ [CHR 0xE9] @ '' nero''
   \<and> normalized (description (cafeParsed ! 0)) = ''caf'' @ [CHR 0xE9] @ '' nero''
   \<and> date (cafeParsed ! 0) = date (cafeLedger ! 0)
   \<and> amount (cafeParsed ! 0) = amount (cafeLedger ! 0)
   \<and> cafeParsed ! 0 \<in> set cafeParsed \<and> cafeLedger ! 0 \<in> set cafeLedger
   \<and> cafeParsed ! 0 \<notin> set (uniqueParsed numberToStringInt cafeLedger cafeParsed)
   \<and> uniqueParsed numberToStringInt cafeLedger cafeParsed = [cafeParsed ! 1, cafeParsed ! 3]
   \<and> fingerprint numberToStringInt (cafeParsed ! 2)
       = ''2024-03-01T00:00:00.000Z|-4|caf'' @ [CHR 0xE9] @ '' nero''
   \<and> uniqueParsed numberToStringInt exLedger exParsed = [exParsed ! 0, exParsed ! 2]"
proof -
  have nl: "normalized (description (cafeLedger ! 0)) = ''caf'' @ [CHR 0xE9] @ '' nero''"
    by (simp add: cafeLedger_def cafeNero_def words_eval string_eval)
  have np: "normalized (description (cafeParsed ! 0)) = ''caf'' @ [CHR 0xE9] @ '' nero''"
    by (simp add: cafeParsed_def cafeRow_def words_eval string_eval)
  have d: "date (cafeParsed ! 0) = date (cafeLedger ! 0)"
    "amount (cafeParsed ! 0) = amount (cafeLedger ! 0)"
    "cafeParsed ! 0 \<in> set cafeParsed" "cafeLedger ! 0 \<in> set cafeLedger"
    by (simp_all add: cafeLedger_def cafeParsed_def cafeRow_def)
  have k: "fingerprint numberToStringInt (cafeParsed ! 2)
       = ''2024-03-01T00:00:00.000Z|-4|caf'' @ [CHR 0xE9] @ '' nero''"
    by (simp add: cafeParsed_def cafeRow_def words_eval numberToStringInt_def showInt_def
        showNat.simps digitChar_def string_eval)
  have u: "uniqueParsed numberToStringInt cafeLedger cafeParsed = [cafeParsed ! 1, cafeParsed ! 3]"
    by (simp add: dedup_eval string_eval)
  have u2: "uniqueParsed numberToStringInt exLedger exParsed = [exParsed ! 0, exParsed ! 2]"
    by (simp add: exParsed_def exLedger_def dedup_eval string_eval)
  have same: "date (cafeParsed ! 0) = date (cafeLedger ! 0)
         \<and> amount (cafeParsed ! 0) = amount (cafeLedger ! 0)
         \<and> normalized (description (cafeParsed ! 0)) = normalized (description (cafeLedger ! 0))"
    using nl np d by simp
  have "\<forall>p\<in>set cafeParsed. \<forall>t\<in>set cafeLedger.
         date p = date t \<and> amount p = amount t
         \<and> normalized (description p) = normalized (description t)
         \<longrightarrow> p \<notin> set (uniqueParsed numberToStringInt cafeLedger cafeParsed)"
    using dedup_against_ledger [of numberToStringInt cafeLedger cafeParsed]
    by (rule conjunct1 [OF conjunct2])
  then have out: "cafeParsed ! 0 \<notin> set (uniqueParsed numberToStringInt cafeLedger cafeParsed)"
    using d(3,4) same by blast
  show ?thesis using nl np d k u u2 out by simp
qed


end
